theory Spec2Isabelle
  imports Main
begin

section \<open>Scope\<close>

text \<open>
  An embedding of \<^verbatim>\<open>src/modules/playground/lib/path-to-json.ts\<close>: the scanner
  (\<^verbatim>\<open>scanTemplateDirectory\<close>, \<^verbatim>\<open>processDirectory\<close>) and the two functions that save a scanned
  tree as a JSON document and load it. What the platform does is written out where the
  code depends on it: the answers of \<^verbatim>\<open>fs.promises\<close> are part of the input, and
  \<^verbatim>\<open>path.basename\<close>, \<^verbatim>\<open>path.parse\<close>, \<^verbatim>\<open>String.prototype.replace\<close>, \<^verbatim>\<open>RegExp.prototype.test\<close>,
  \<^verbatim>\<open>JSON.stringify\<close> and \<^verbatim>\<open>JSON.parse\<close> follow their specifications. The file system does
  not change during a scan, nor between a save and the load that follows it; paths are
  POSIX paths; \<^verbatim>\<open>maxFileSize\<close> ranges over the integers; a character is one of 256 code
  units.
\<close>

section \<open>Template trees\<close>

text \<open>
  \<^verbatim>\<open>TemplateFile\<close> and \<^verbatim>\<open>TemplateFolder\<close> of \<^verbatim>\<open>path-to-json.ts\<close>; a \<^verbatim>\<open>TemplateItem\<close> is
  either of them.
\<close>

datatype TemplateItem =
    TemplateFile (filename: string) (fileExtension: string) (content: string)
  | TemplateFolder (folderName: string) (items: "TemplateItem list")

definition EMPTY_TEMPLATE :: TemplateItem where
  "EMPTY_TEMPLATE = TemplateFolder ''empty-template'' []"

text \<open>All nodes of a tree, the root first, in document order.\<close>

fun nodes :: "TemplateItem \<Rightarrow> TemplateItem list" where
  "nodes (TemplateFile n e c) = [TemplateFile n e c]"
| "nodes (TemplateFolder n its) = TemplateFolder n its # concat (map nodes its)"

fun node_name :: "TemplateItem \<Rightarrow> string" where
  "node_name (TemplateFile n e c) = n"
| "node_name (TemplateFolder n its) = n"

fun is_file :: "TemplateItem \<Rightarrow> bool" where
  "is_file (TemplateFile n e c) = True"
| "is_file (TemplateFolder n its) = False"

section \<open>The environment\<close>

text \<open>
  What \<^verbatim>\<open>fs.promises\<close> answers. A rejected promise is \<open>Inl\<close>. A regular file carries the
  answer of \<^verbatim>\<open>stat\<close> (its size in bytes) and the answer of \<^verbatim>\<open>readFile(..., "utf8")\<close>; a
  directory carries its \<^verbatim>\<open>readdir\<close> listing (entry name and entry, in listing order) or
  is unreadable; \<open>Other\<close> is an entry that is neither \<^verbatim>\<open>isDirectory()\<close> nor \<^verbatim>\<open>isFile()\<close>
  (symbolic link, socket, device). \<^verbatim>\<open>path.join(folderPath, entryName)\<close> names the entry
  of that name in the listing, so the model descends into the entry itself.
\<close>

datatype error = IOError | SyntaxError

datatype fsnode =
    File (stat_size: "error + nat") (read_utf8: "error + string")
  | Directory "(string \<times> fsnode) list"
  | UnreadableDirectory
  | Other

fun isDirectory :: "fsnode \<Rightarrow> bool" where
  "isDirectory (Directory es) = True"
| "isDirectory UnreadableDirectory = True"
| "isDirectory n = False"

fun isFile :: "fsnode \<Rightarrow> bool" where
  "isFile (File st rd) = True"
| "isFile n = False"

text \<open>
  The scanned tree by root path. \<^verbatim>\<open>fs.promises.stat(path)\<close> answers what is at the path and
  rejects when nothing is there.
\<close>

type_synonym filesystem = "string \<Rightarrow> fsnode option"

definition stat :: "filesystem \<Rightarrow> string \<Rightarrow> error + fsnode" where
  "stat fs p = (case fs p of None \<Rightarrow> Inl IOError | Some n \<Rightarrow> Inr n)"

section \<open>Library functions of the platform\<close>

text \<open>
  \<^verbatim>\<open>path.basename\<close> (POSIX): trailing separators are dropped, the last segment is
  returned.
\<close>

definition basename :: "string \<Rightarrow> string" where
  "basename p =
     rev (takeWhile (\<lambda>c. c \<noteq> CHR ''/'') (dropWhile (\<lambda>c. c = CHR ''/'') (rev p)))"

text \<open>
  \<^verbatim>\<open>path.parse\<close> (POSIX), fields \<^verbatim>\<open>name\<close> and \<^verbatim>\<open>ext\<close>: the extension runs from the last
  dot of the base name to its end; there is none when the base name has no dot, when
  its only dot is its first character, or when the base name is \<^verbatim>\<open>..\<close>.
\<close>

record ParsedPath =
  name :: string
  ext :: string

definition path_parse :: "string \<Rightarrow> ParsedPath" where
  "path_parse p =
     (let base = basename p;
          suffix = rev (takeWhile (\<lambda>c. c \<noteq> CHR ''.'') (rev base));
          stem = rev (drop 1 (dropWhile (\<lambda>c. c \<noteq> CHR ''.'') (rev base)))
      in if CHR ''.'' \<notin> set base \<or> stem = [] \<or> base = ''..''
         then \<lparr>name = base, ext = []\<rparr>
         else \<lparr>name = stem, ext = CHR ''.'' # suffix\<rparr>)"

text \<open>\<^verbatim>\<open>s.replace(".", "")\<close>: the first dot of \<open>s\<close>, if any, is removed.\<close>

definition replace_dot :: "string \<Rightarrow> string" where
  "replace_dot s = remove1 (CHR ''.'') s"

text \<open>
  The decimal text of a number inside a template literal (\<^verbatim>\<open>${stats.size}\<close>), for the
  integers below \<open>10^21\<close> that a file size is.
\<close>

function show_nat :: "nat \<Rightarrow> string" where
  "show_nat n =
     (if n < 10 then [''0123456789'' ! n]
      else show_nat (n div 10) @ [''0123456789'' ! (n mod 10)])"
  by pat_completeness auto
termination
  by (relation "measure (\<lambda>n. n)") auto

declare show_nat.simps [simp del]

text \<open>
  A \<^verbatim>\<open>RegExp\<close> object. \<open>exec_from r s i\<close> is the end of the match that the pattern finds
  in \<open>s\<close> when the search starts at index \<open>i\<close>, if there is one. \<^verbatim>\<open>RegExp.prototype.test\<close>
  starts at index 0 and leaves the object alone unless the pattern has the \<^verbatim>\<open>g\<close> or
  \<^verbatim>\<open>y\<close> flag; with one of these flags it starts at the object's \<^verbatim>\<open>lastIndex\<close>, stores the
  end of the match there on success and resets it to 0 on failure. The \<^verbatim>\<open>lastIndex\<close>
  slots live in a store indexed by object identity, since the same object may occur
  several times in an array.
\<close>

record RegExp =
  object_id :: nat
  global_or_sticky :: bool
  exec_from :: "string \<Rightarrow> nat \<Rightarrow> nat option"

type_synonym lastIndex_store = "nat \<Rightarrow> nat"

definition test :: "RegExp \<Rightarrow> string \<Rightarrow> lastIndex_store \<Rightarrow> bool \<times> lastIndex_store" where
  "test p s h =
     (if global_or_sticky p then
        (let i = h (object_id p)
         in case (if length s < i then None else exec_from p s i) of
              None \<Rightarrow> (False, h(object_id p := 0))
            | Some e \<Rightarrow> (True, h(object_id p := e)))
      else (exec_from p s 0 \<noteq> None, h))"

text \<open>\<^verbatim>\<open>patterns.some((p) => p.test(s))\<close>: stops at the first pattern that answers true.\<close>

fun some_test :: "RegExp list \<Rightarrow> string \<Rightarrow> lastIndex_store \<Rightarrow> bool \<times> lastIndex_store" where
  "some_test [] s h = (False, h)"
| "some_test (p # ps) s h =
     (case test p s h of
        (True, h') \<Rightarrow> (True, h')
      | (False, h') \<Rightarrow> some_test ps s h')"

section \<open>Scan options\<close>

record ScanOptions =
  ignoreFiles :: "string list option"
  ignoreFolders :: "string list option"
  ignorePatterns :: "RegExp list option"
  maxFileSize :: "int option"

text \<open>
  The three default patterns: \<^verbatim>\<open>/^\..+\.swp$/\<close>, \<^verbatim>\<open>/^\.#/\<close> and \<^verbatim>\<open>/~$/\<close>, none with a flag.
  The first matches a name that starts with a dot, ends in \<^verbatim>\<open>.swp\<close> and has at least one
  character in between, none of them a line terminator (which \<^verbatim>\<open>.\<close> does not match); the
  second a name that starts with \<^verbatim>\<open>.#\<close>; the third a name that ends in \<^verbatim>\<open>~\<close>.
\<close>

definition line_terminator :: "char \<Rightarrow> bool" where
  "line_terminator c = (c = CHR 0x0A \<or> c = CHR 0x0D)"

definition swp_pattern :: RegExp where
  "swp_pattern = \<lparr>object_id = 0, global_or_sticky = False,
     exec_from = (\<lambda>s i. if i = 0 \<and> 6 \<le> length s \<and> hd s = CHR ''.''
                           \<and> drop (length s - 4) s = ''.swp''
                           \<and> \<not> list_ex line_terminator (take (length s - 5) (drop 1 s))
                        then Some (length s) else None)\<rparr>"

definition dot_hash_pattern :: RegExp where
  "dot_hash_pattern = \<lparr>object_id = 1, global_or_sticky = False,
     exec_from = (\<lambda>s i. if i = 0 \<and> take 2 s = ''.#'' then Some 2 else None)\<rparr>"

definition tilde_pattern :: RegExp where
  "tilde_pattern = \<lparr>object_id = 2, global_or_sticky = False,
     exec_from = (\<lambda>s i. if s \<noteq> [] \<and> i < length s \<and> last s = CHR ''~''
                        then Some (length s) else None)\<rparr>"

definition defaultOptions :: ScanOptions where
  "defaultOptions = \<lparr>
     ignoreFiles = Some [''package-lock.json'', ''yarn.lock'', ''.DS_Store'', ''thumbs.db'',
       ''.gitignore'', ''.npmrc'', ''.yarnrc'', ''.env'', ''.env.local'',
       ''.env.development'', ''.env.production''],
     ignoreFolders = Some [''node_modules'', ''.git'', ''.vscode'', ''.idea'', ''dist'',
       ''build'', ''coverage''],
     ignorePatterns = Some [swp_pattern, dot_hash_pattern, tilde_pattern],
     maxFileSize = Some (1024 * 1024)\<rparr>"

text \<open>\<^verbatim>\<open>xs || []\<close> for an optional array.\<close>

definition or_empty :: "'a list option \<Rightarrow> 'a list" where
  "or_empty xs = (case xs of None \<Rightarrow> [] | Some ys \<Rightarrow> ys)"

definition mergedOptions :: "ScanOptions \<Rightarrow> ScanOptions" where
  "mergedOptions options = \<lparr>
     ignoreFiles = Some (or_empty (ignoreFiles defaultOptions) @ or_empty (ignoreFiles options)),
     ignoreFolders =
       Some (or_empty (ignoreFolders defaultOptions) @ or_empty (ignoreFolders options)),
     ignorePatterns =
       Some (or_empty (ignorePatterns defaultOptions) @ or_empty (ignorePatterns options)),
     maxFileSize =
       (if maxFileSize options \<noteq> None then maxFileSize options
        else maxFileSize defaultOptions)\<rparr>"

section \<open>The scanner\<close>

text \<open>
  \<^verbatim>\<open>options.ignoreFolders?.includes(entryName)\<close> and its siblings: an absent array
  answers \<^verbatim>\<open>undefined\<close>, which the \<^verbatim>\<open>if\<close> takes for false.
\<close>

definition includes_opt :: "string list option \<Rightarrow> string \<Rightarrow> bool" where
  "includes_opt xs s = (case xs of None \<Rightarrow> False | Some ys \<Rightarrow> s \<in> set ys)"

definition some_test_opt ::
  "RegExp list option \<Rightarrow> string \<Rightarrow> lastIndex_store \<Rightarrow> bool \<times> lastIndex_store" where
  "some_test_opt ps s h = (case ps of None \<Rightarrow> (False, h) | Some qs \<Rightarrow> some_test qs s h)"

text \<open>
  \<^verbatim>\<open>options.maxFileSize && stats.size > options.maxFileSize\<close>: an absent bound and the
  bound 0 are both falsy.
\<close>

definition too_large :: "int option \<Rightarrow> nat \<Rightarrow> bool" where
  "too_large m sz = (case m of None \<Rightarrow> False | Some k \<Rightarrow> k \<noteq> 0 \<and> int sz > k)"

definition placeholder :: "nat \<Rightarrow> string" where
  "placeholder sz = ''[File too large: '' @ show_nat sz @ '' bytes]''"

text \<open>
  The inner \<^verbatim>\<open>try\<close> block of the loop body, for a file entry that is not ignored: the
  node, or the error that sends control to the \<^verbatim>\<open>catch\<close> block.
\<close>

definition try_file :: "string \<Rightarrow> fsnode \<Rightarrow> ScanOptions \<Rightarrow> error + TemplateItem" where
  "try_file entryName entry options =
     (case stat_size entry of
        Inl e \<Rightarrow> Inl e
      | Inr sz \<Rightarrow>
          (let parsed = path_parse entryName
           in case (if too_large (maxFileSize options) sz then Inr (placeholder sz)
                    else read_utf8 entry) of
                Inl e \<Rightarrow> Inl e
              | Inr c \<Rightarrow> Inr (TemplateFile (name parsed) (replace_dot (ext parsed)) c)))"

definition catch_file :: "string \<Rightarrow> TemplateItem" where
  "catch_file entryName =
     (let parsed = path_parse entryName
      in TemplateFile (name parsed) (replace_dot (ext parsed)) [])"

text \<open>The node that the \<^verbatim>\<open>try\<close>/\<^verbatim>\<open>catch\<close> pair of the loop body pushes for a file entry.\<close>

definition file_item :: "string \<Rightarrow> fsnode \<Rightarrow> ScanOptions \<Rightarrow> TemplateItem" where
  "file_item entryName entry options =
     (case try_file entryName entry options of
        Inr item \<Rightarrow> item
      | Inl e \<Rightarrow> catch_file entryName)"

text \<open>
  \<^verbatim>\<open>processDirectory\<close>; \<open>loop\<close> is its \<^verbatim>\<open>for (const entry of entries)\<close> with the array
  \<^verbatim>\<open>items\<close> that the body pushes to. \<^verbatim>\<open>readdir\<close> answers the listing of a readable
  directory and rejects on anything else, which the outer \<^verbatim>\<open>catch\<close> turns into a folder
  without items. The store of \<^verbatim>\<open>lastIndex\<close> slots is threaded through, as the pattern
  objects are shared by the whole traversal.
\<close>

fun processDirectory ::
    "string \<Rightarrow> fsnode \<Rightarrow> ScanOptions \<Rightarrow> lastIndex_store \<Rightarrow> TemplateItem \<times> lastIndex_store"
  and loop ::
    "(string \<times> fsnode) list \<Rightarrow> ScanOptions \<Rightarrow> TemplateItem list \<Rightarrow> lastIndex_store
       \<Rightarrow> TemplateItem list \<times> lastIndex_store" where
  "processDirectory fname (Directory entries) options h =
     (case loop entries options [] h of (its, h') \<Rightarrow> (TemplateFolder fname its, h'))"
| "processDirectory fname (File st rd) options h = (TemplateFolder fname [], h)"
| "processDirectory fname UnreadableDirectory options h = (TemplateFolder fname [], h)"
| "processDirectory fname Other options h = (TemplateFolder fname [], h)"
| "loop [] options its h = (its, h)"
| "loop ((entryName, entry) # entries) options its h =
     (if isDirectory entry then
        (if includes_opt (ignoreFolders options) entryName then loop entries options its h
         else case processDirectory entryName entry options h of
                (folder, h') \<Rightarrow> loop entries options (its @ [folder]) h')
      else if isFile entry then
        (if includes_opt (ignoreFiles options) entryName then loop entries options its h
         else case some_test_opt (ignorePatterns options) entryName h of
                (True, h') \<Rightarrow> loop entries options its h'
              | (False, h') \<Rightarrow> loop entries options (its @ [file_item entryName entry options]) h')
      else loop entries options its h)"

text \<open>
  \<^verbatim>\<open>scanTemplateDirectory\<close>. The promise it returns is modelled as a sum, \<open>Inl\<close> for a
  rejection. An absent \<^verbatim>\<open>options\<close> argument is the empty object.
\<close>

definition no_options :: ScanOptions where
  "no_options = \<lparr>ignoreFiles = None, ignoreFolders = None, ignorePatterns = None,
     maxFileSize = None\<rparr>"

definition scanTemplateDirectory ::
  "filesystem \<Rightarrow> string \<Rightarrow> ScanOptions option \<Rightarrow> lastIndex_store
     \<Rightarrow> (error + TemplateItem) \<times> lastIndex_store" where
  "scanTemplateDirectory fs templatePath options h =
     (let opts = (case options of None \<Rightarrow> no_options | Some x \<Rightarrow> x);
          merged = mergedOptions opts
      in case stat fs templatePath of
           Inl e \<Rightarrow> (Inr EMPTY_TEMPLATE, h)
         | Inr stats \<Rightarrow>
             if \<not> isDirectory stats then (Inr EMPTY_TEMPLATE, h)
             else (case processDirectory (basename templatePath) stats merged h of
                     (folder, h') \<Rightarrow> (Inr folder, h')))"

section \<open>JSON documents\<close>

text \<open>
  The values that \<^verbatim>\<open>JSON.parse\<close> builds. A string is a list of UTF-16 code units, so
  that a \<^verbatim>\<open>\uXXXX\<close> escape has a value whatever its four digits are; a number is kept as
  the text that was read; an object is its properties in the order of their first
  appearance (JavaScript lists the keys that are array indices first; a template
  document has none).
\<close>

type_synonym code_unit = nat

datatype json =
    JNull
  | JBool bool
  | JNumber string
  | JString "code_unit list"
  | JArray "json list"
  | JObject "(code_unit list \<times> json) list"

definition units :: "string \<Rightarrow> code_unit list" where
  "units s = map of_char s"

text \<open>
  A \<^verbatim>\<open>TemplateFile\<close> or \<^verbatim>\<open>TemplateFolder\<close> object as a value: the properties are in the
  order in which the scanner writes them in its object literals.
\<close>

fun toJSON :: "TemplateItem \<Rightarrow> json" where
  "toJSON (TemplateFile n e c) =
     JObject [(units ''filename'', JString (units n)),
              (units ''fileExtension'', JString (units e)),
              (units ''content'', JString (units c))]"
| "toJSON (TemplateFolder n its) =
     JObject [(units ''folderName'', JString (units n)),
              (units ''items'', JArray (map toJSON its))]"

subsection \<open>\<^verbatim>\<open>JSON.stringify(value, null, 2)\<close> on a template tree\<close>

text \<open>
  \<^verbatim>\<open>QuoteJSONString\<close>: the quote, the backslash and the control characters are escaped,
  the ones without a short escape as \<^verbatim>\<open>\u00xx\<close> in lowercase digits.
\<close>

definition hex_digit :: "nat \<Rightarrow> char" where
  "hex_digit n = ''0123456789abcdef'' ! n"

definition UnicodeEscape :: "nat \<Rightarrow> string" where
  "UnicodeEscape n =
     [CHR 0x5C, CHR ''u'', hex_digit (n div 4096), hex_digit (n div 256 mod 16),
      hex_digit (n div 16 mod 16), hex_digit (n mod 16)]"

definition quote_char :: "char \<Rightarrow> string" where
  "quote_char c =
     (if c = CHR 0x08 then [CHR 0x5C, CHR ''b'']
      else if c = CHR 0x09 then [CHR 0x5C, CHR ''t'']
      else if c = CHR 0x0A then [CHR 0x5C, CHR ''n'']
      else if c = CHR 0x0C then [CHR 0x5C, CHR ''f'']
      else if c = CHR 0x0D then [CHR 0x5C, CHR ''r'']
      else if c = CHR 0x22 then [CHR 0x5C, CHR 0x22]
      else if c = CHR 0x5C then [CHR 0x5C, CHR 0x5C]
      else if (of_char c :: nat) < 0x20 then UnicodeEscape (of_char c)
      else [c])"

definition QuoteJSONString :: "string \<Rightarrow> string" where
  "QuoteJSONString s = CHR 0x22 # concat (map quote_char s) @ [CHR 0x22]"

text \<open>
  \<^verbatim>\<open>SerializeJSONObject\<close> and \<^verbatim>\<open>SerializeJSONArray\<close> with the gap of two spaces:
  \<open>stepback\<close> is the indentation of the line that the object or array starts on, every
  property and element is on a line of its own, two spaces further in, and an empty
  array is \<^verbatim>\<open>[]\<close>.
\<close>

definition indent :: "nat \<Rightarrow> string" where
  "indent n = replicate n CHR '' ''"

definition property :: "nat \<Rightarrow> string \<Rightarrow> string \<Rightarrow> string" where
  "property ind key strP = indent ind @ QuoteJSONString key @ '': '' @ strP"

fun SerializeJSONObject :: "nat \<Rightarrow> TemplateItem \<Rightarrow> string"
  and SerializeJSONArray :: "nat \<Rightarrow> TemplateItem list \<Rightarrow> string"
  and join_elements :: "nat \<Rightarrow> TemplateItem list \<Rightarrow> string" where
  "SerializeJSONObject stepback (TemplateFile n e c) =
     ''{'' @ [CHR 0x0A]
       @ property (stepback + 2) ''filename'' (QuoteJSONString n) @ '','' @ [CHR 0x0A]
       @ property (stepback + 2) ''fileExtension'' (QuoteJSONString e) @ '','' @ [CHR 0x0A]
       @ property (stepback + 2) ''content'' (QuoteJSONString c)
       @ [CHR 0x0A] @ indent stepback @ ''}''"
| "SerializeJSONObject stepback (TemplateFolder n its) =
     ''{'' @ [CHR 0x0A]
       @ property (stepback + 2) ''folderName'' (QuoteJSONString n) @ '','' @ [CHR 0x0A]
       @ property (stepback + 2) ''items'' (SerializeJSONArray (stepback + 2) its)
       @ [CHR 0x0A] @ indent stepback @ ''}''"
| "SerializeJSONArray stepback [] = ''[]''"
| "SerializeJSONArray stepback (x # xs) =
     ''['' @ [CHR 0x0A] @ indent (stepback + 2) @ join_elements (stepback + 2) (x # xs)
       @ [CHR 0x0A] @ indent stepback @ '']''"
| "join_elements ind [] = []"
| "join_elements ind [x] = SerializeJSONObject ind x"
| "join_elements ind (x # y # ys) =
     SerializeJSONObject ind x @ '','' @ [CHR 0x0A] @ indent ind @ join_elements ind (y # ys)"

definition JSON_stringify :: "TemplateItem \<Rightarrow> string" where
  "JSON_stringify t = SerializeJSONObject 0 t"

subsection \<open>\<^verbatim>\<open>JSON.parse\<close>\<close>

text \<open>
  The JSON grammar: white space is the space, the tab, the line feed and the carriage
  return; a string holds no raw control character and only the escapes
  \<^verbatim>\<open>\" \\ \/ \b \f \n \r \t \uXXXX\<close>; a number is \<^verbatim>\<open>-?(0|[1-9][0-9]*)(\.[0-9]+)?([eE][+-]?[0-9]+)?\<close>.
\<close>

definition is_ws :: "char \<Rightarrow> bool" where
  "is_ws c = (c = CHR 0x20 \<or> c = CHR 0x09 \<or> c = CHR 0x0A \<or> c = CHR 0x0D)"

definition skip_ws :: "string \<Rightarrow> string" where
  "skip_ws s = dropWhile is_ws s"

definition hex_val :: "char \<Rightarrow> nat option" where
  "hex_val c =
     (let n = of_char c :: nat
      in if 48 \<le> n \<and> n \<le> 57 then Some (n - 48)
         else if 97 \<le> n \<and> n \<le> 102 then Some (n - 87)
         else if 65 \<le> n \<and> n \<le> 70 then Some (n - 55)
         else None)"

definition hex4 :: "char \<Rightarrow> char \<Rightarrow> char \<Rightarrow> char \<Rightarrow> nat option" where
  "hex4 a b c d =
     (case (hex_val a, hex_val b, hex_val c, hex_val d) of
        (Some x, Some y, Some z, Some w) \<Rightarrow> Some (((x * 16 + y) * 16 + z) * 16 + w)
      | _ \<Rightarrow> None)"

definition escape_char :: "char \<Rightarrow> code_unit option" where
  "escape_char e =
     (if e = CHR 0x22 then Some 0x22
      else if e = CHR 0x5C then Some 0x5C
      else if e = CHR ''/'' then Some 0x2F
      else if e = CHR ''b'' then Some 0x08
      else if e = CHR ''f'' then Some 0x0C
      else if e = CHR ''n'' then Some 0x0A
      else if e = CHR ''r'' then Some 0x0D
      else if e = CHR ''t'' then Some 0x09
      else None)"

definition cons_unit ::
  "code_unit \<Rightarrow> (code_unit list \<times> string) option \<Rightarrow> (code_unit list \<times> string) option" where
  "cons_unit u r = (case r of None \<Rightarrow> None | Some (us, rest) \<Rightarrow> Some (u # us, rest))"

text \<open>The characters of a string after its opening quote, up to the closing quote.\<close>

fun parse_chars :: "string \<Rightarrow> (code_unit list \<times> string) option" where
  "parse_chars [] = None"
| "parse_chars (c # cs) =
     (if c = CHR 0x22 then Some ([], cs)
      else if c = CHR 0x5C then
        (case cs of
           [] \<Rightarrow> None
         | e # cs1 \<Rightarrow>
             if e = CHR ''u'' then
               (case cs1 of
                  a # b # c # d # cs2 \<Rightarrow>
                    (case hex4 a b c d of
                       None \<Rightarrow> None
                     | Some u \<Rightarrow> cons_unit u (parse_chars cs2))
                | _ \<Rightarrow> None)
             else (case escape_char e of
                     None \<Rightarrow> None
                   | Some u \<Rightarrow> cons_unit u (parse_chars cs1)))
      else if (of_char c :: nat) < 0x20 then None
      else cons_unit (of_char c) (parse_chars cs))"

definition is_digit :: "char \<Rightarrow> bool" where
  "is_digit c = (48 \<le> (of_char c :: nat) \<and> (of_char c :: nat) \<le> 57)"

definition digits1 :: "string \<Rightarrow> (string \<times> string) option" where
  "digits1 s = (if takeWhile is_digit s = [] then None
                else Some (takeWhile is_digit s, dropWhile is_digit s))"

definition parse_int_part :: "string \<Rightarrow> (string \<times> string) option" where
  "parse_int_part s =
     (case s of
        [] \<Rightarrow> None
      | c # r \<Rightarrow> if c = CHR ''0'' then Some (''0'', r) else digits1 s)"

definition parse_frac :: "string \<Rightarrow> (string \<times> string) option" where
  "parse_frac s =
     (case s of
        c # r \<Rightarrow>
          if c = CHR ''.'' then
            (case digits1 r of None \<Rightarrow> None | Some (ds, r') \<Rightarrow> Some (c # ds, r'))
          else Some ([], s)
      | [] \<Rightarrow> Some ([], s))"

definition parse_exp :: "string \<Rightarrow> (string \<times> string) option" where
  "parse_exp s =
     (case s of
        c # r \<Rightarrow>
          if c = CHR ''e'' \<or> c = CHR ''E'' then
            (case r of
               sg # r1 \<Rightarrow>
                 if sg = CHR ''+'' \<or> sg = CHR ''-'' then
                   (case digits1 r1 of
                      None \<Rightarrow> None
                    | Some (ds, r') \<Rightarrow> Some (c # sg # ds, r'))
                 else (case digits1 r of None \<Rightarrow> None | Some (ds, r') \<Rightarrow> Some (c # ds, r'))
             | [] \<Rightarrow> None)
          else Some ([], s)
      | [] \<Rightarrow> Some ([], s))"

definition parse_number :: "string \<Rightarrow> (string \<times> string) option" where
  "parse_number s =
     (let (sign, s0) = (case s of c # r \<Rightarrow> if c = CHR ''-'' then (''-'', r) else ([], s)
                                 | [] \<Rightarrow> ([], s))
      in case parse_int_part s0 of
           None \<Rightarrow> None
         | Some (i, s1) \<Rightarrow>
             (case parse_frac s1 of
                None \<Rightarrow> None
              | Some (f, s2) \<Rightarrow>
                  (case parse_exp s2 of
                     None \<Rightarrow> None
                   | Some (e, s3) \<Rightarrow> Some (sign @ i @ f @ e, s3))))"

text \<open>A property that is there already keeps its place and takes the new value.\<close>

fun put ::
  "code_unit list \<Rightarrow> json \<Rightarrow> (code_unit list \<times> json) list \<Rightarrow> (code_unit list \<times> json) list" where
  "put k v [] = [(k, v)]"
| "put k v ((k', v') # kvs) = (if k' = k then (k, v) # kvs else (k', v') # put k v kvs)"

text \<open>
  The recursive descent. The first argument bounds the recursion: it goes down by one
  with every bracket that is opened and every comma that is passed, so the length of
  the text is enough for any text (\<open>parse_fuel_enough_all\<close> below).
\<close>

fun parse_value :: "nat \<Rightarrow> string \<Rightarrow> (json \<times> string) option"
  and parse_elements :: "nat \<Rightarrow> string \<Rightarrow> json list \<Rightarrow> (json \<times> string) option"
  and parse_members ::
    "nat \<Rightarrow> string \<Rightarrow> (code_unit list \<times> json) list \<Rightarrow> (json \<times> string) option" where
  "parse_value 0 s = None"
| "parse_value (Suc n) s =
     (case skip_ws s of
        [] \<Rightarrow> None
      | c # r \<Rightarrow>
          if c = CHR ''{'' then
            (case skip_ws r of
               [] \<Rightarrow> None
             | c' # r' \<Rightarrow> if c' = CHR ''}'' then Some (JObject [], r') else parse_members n r [])
          else if c = CHR ''['' then
            (case skip_ws r of
               [] \<Rightarrow> None
             | c' # r' \<Rightarrow> if c' = CHR '']'' then Some (JArray [], r') else parse_elements n r [])
          else if c = CHR 0x22 then
            (case parse_chars r of None \<Rightarrow> None | Some (us, r') \<Rightarrow> Some (JString us, r'))
          else if take 4 (c # r) = ''true'' then Some (JBool True, drop 4 (c # r))
          else if take 5 (c # r) = ''false'' then Some (JBool False, drop 5 (c # r))
          else if take 4 (c # r) = ''null'' then Some (JNull, drop 4 (c # r))
          else (case parse_number (c # r) of
                  None \<Rightarrow> None
                | Some (lexeme, r') \<Rightarrow> Some (JNumber lexeme, r')))"
| "parse_elements 0 s acc = None"
| "parse_elements (Suc n) s acc =
     (case parse_value (Suc n) s of
        None \<Rightarrow> None
      | Some (v, r) \<Rightarrow>
          (case skip_ws r of
             [] \<Rightarrow> None
           | c # r' \<Rightarrow>
               if c = CHR '','' then parse_elements n r' (acc @ [v])
               else if c = CHR '']'' then Some (JArray (acc @ [v]), r')
               else None))"
| "parse_members 0 s acc = None"
| "parse_members (Suc n) s acc =
     (case skip_ws s of
        [] \<Rightarrow> None
      | q # r \<Rightarrow>
          if q \<noteq> CHR 0x22 then None
          else (case parse_chars r of
                  None \<Rightarrow> None
                | Some (k, r1) \<Rightarrow>
                    (case skip_ws r1 of
                       [] \<Rightarrow> None
                     | c # r2 \<Rightarrow>
                         if c \<noteq> CHR '':'' then None
                         else (case parse_value (Suc n) r2 of
                                 None \<Rightarrow> None
                               | Some (v, r3) \<Rightarrow>
                                   (case skip_ws r3 of
                                      [] \<Rightarrow> None
                                    | c' # r4 \<Rightarrow>
                                        if c' = CHR '','' then parse_members n r4 (put k v acc)
                                        else if c' = CHR ''}'' then
                                          Some (JObject (put k v acc), r4)
                                        else None)))))"

declare parse_value.simps [simp del] parse_elements.simps [simp del]
  parse_members.simps [simp del]

text \<open>\<^verbatim>\<open>JSON.parse(text)\<close>: one value, white space around it, nothing else; or it throws.\<close>

definition JSON_parse :: "string \<Rightarrow> error + json" where
  "JSON_parse text =
     (case parse_value (length text) text of
        None \<Rightarrow> Inl SyntaxError
      | Some (v, r) \<Rightarrow> if skip_ws r = [] then Inr v else Inl SyntaxError)"

section \<open>Saving and loading\<close>

text \<open>
  The files that \<^verbatim>\<open>saveTemplateStructureToJson\<close> writes and
  \<^verbatim>\<open>readTemplateStructureFromJson\<close> reads, by path: the text that \<^verbatim>\<open>readFile(..., "utf8")\<close>
  answers (none when it rejects), whether \<^verbatim>\<open>mkdir(path.dirname(p), {recursive: true})\<close>
  rejects for the output path \<open>p\<close>, and whether \<^verbatim>\<open>writeFile\<close> rejects. A write that
  succeeds makes the text the content of the file. The scan of a save is over before its
  write begins, so the scanned tree is kept apart from these files.
\<close>

record disk =
  files :: "string \<Rightarrow> string option"
  mkdir_rejects :: "string \<Rightarrow> bool"
  write_rejects :: "string \<Rightarrow> bool"

definition readFile :: "disk \<Rightarrow> string \<Rightarrow> error + string" where
  "readFile dk p = (case files dk p of None \<Rightarrow> Inl IOError | Some data \<Rightarrow> Inr data)"

definition mkdir_dirname :: "disk \<Rightarrow> string \<Rightarrow> error + unit" where
  "mkdir_dirname dk p = (if mkdir_rejects dk p then Inl IOError else Inr ())"

definition writeFile :: "disk \<Rightarrow> string \<Rightarrow> string \<Rightarrow> error + disk" where
  "writeFile dk p data =
     (if write_rejects dk p then Inl IOError else Inr (dk\<lparr>files := (files dk)(p \<mapsto> data)\<rparr>))"

text \<open>
  \<^verbatim>\<open>saveTemplateStructureToJson\<close>: the \<^verbatim>\<open>try\<close> block scans, makes the directory and
  writes the tree; the \<^verbatim>\<open>catch\<close> block makes the directory and writes the empty
  template, and what rejects there rejects the save.
\<close>

definition saveTemplateStructureToJson ::
  "filesystem \<Rightarrow> disk \<Rightarrow> string \<Rightarrow> string \<Rightarrow> ScanOptions option \<Rightarrow> lastIndex_store
     \<Rightarrow> (error + unit) \<times> disk \<times> lastIndex_store" where
  "saveTemplateStructureToJson fs dk templatePath outputPath options h =
     (case scanTemplateDirectory fs templatePath options h of
        (scanned, h') \<Rightarrow>
          (case (case scanned of
                   Inl e \<Rightarrow> Inl e
                 | Inr templateStructure \<Rightarrow>
                     (case mkdir_dirname dk outputPath of
                        Inl e \<Rightarrow> Inl e
                      | Inr u \<Rightarrow> writeFile dk outputPath (JSON_stringify templateStructure))) of
             Inr dk' \<Rightarrow> (Inr (), dk', h')
           | Inl err \<Rightarrow>
               (case mkdir_dirname dk outputPath of
                  Inl e \<Rightarrow> (Inl e, dk, h')
                | Inr u \<Rightarrow>
                    (case writeFile dk outputPath (JSON_stringify EMPTY_TEMPLATE) of
                       Inl e \<Rightarrow> (Inl e, dk, h')
                     | Inr dk' \<Rightarrow> (Inr (), dk', h')))))"

text \<open>
  \<^verbatim>\<open>readTemplateStructureFromJson\<close>: what \<^verbatim>\<open>JSON.parse\<close> builds is returned as it is (the
  cast to \<^verbatim>\<open>TemplateFolder\<close> checks nothing); the \<^verbatim>\<open>catch\<close> block answers the empty
  template.
\<close>

definition readTemplateStructureFromJson :: "disk \<Rightarrow> string \<Rightarrow> error + json" where
  "readTemplateStructureFromJson dk filePath =
     (case (case readFile dk filePath of
              Inl e \<Rightarrow> Inl e
            | Inr data \<Rightarrow> JSON_parse data) of
        Inl e \<Rightarrow> Inr (toJSON EMPTY_TEMPLATE)
      | Inr v \<Rightarrow> Inr v)"

section \<open>Predicates used to state the properties\<close>

text \<open>A name is a single path segment when it holds no separator.\<close>

definition single_segment :: "string \<Rightarrow> bool" where
  "single_segment s = (CHR ''/'' \<notin> set s)"

text \<open>
  A listing as \<^verbatim>\<open>readdir\<close> gives it: every entry name, at every depth, is a single
  segment.
\<close>

fun names_ok :: "fsnode \<Rightarrow> bool" and entries_ok :: "(string \<times> fsnode) list \<Rightarrow> bool" where
  "names_ok (Directory es) = entries_ok es"
| "names_ok (File st rd) = True"
| "names_ok UnreadableDirectory = True"
| "names_ok Other = True"
| "entries_ok [] = True"
| "entries_ok ((n, e) # es) = (single_segment n \<and> names_ok e \<and> entries_ok es)"

definition node_ok :: "TemplateItem \<Rightarrow> bool" where
  "node_ok x =
     (single_segment (node_name x) \<and> (is_file x \<longrightarrow> CHR ''.'' \<notin> set (fileExtension x)))"

text \<open>
  A tree without the directories to ignore: every directory entry, at every depth,
  whose name is among \<open>ig\<close> is taken out of its listing, with all it holds.
\<close>

fun prune :: "string list \<Rightarrow> fsnode \<Rightarrow> fsnode"
  and prune_entries :: "string list \<Rightarrow> (string \<times> fsnode) list \<Rightarrow> (string \<times> fsnode) list" where
  "prune ig (Directory es) = Directory (prune_entries ig es)"
| "prune ig (File st rd) = File st rd"
| "prune ig UnreadableDirectory = UnreadableDirectory"
| "prune ig Other = Other"
| "prune_entries ig [] = []"
| "prune_entries ig ((n, e) # es) =
     (if isDirectory e \<and> n \<in> set ig then prune_entries ig es
      else (n, prune ig e) # prune_entries ig es)"

text \<open>
  The names of the file entries of a tree, at every depth, and what it is for an entry
  name to be spelled by a file node: the name is the node's file name, then a dot and
  the node's extension, letter for letter (a name without extension may end in a dot).
\<close>

fun file_names :: "fsnode \<Rightarrow> string list"
  and entries_file_names :: "(string \<times> fsnode) list \<Rightarrow> string list" where
  "file_names (Directory es) = entries_file_names es"
| "file_names (File st rd) = []"
| "file_names UnreadableDirectory = []"
| "file_names Other = []"
| "entries_file_names [] = []"
| "entries_file_names ((n, e) # es) =
     (if isFile e then [n] else file_names e) @ entries_file_names es"

definition named_by :: "string \<Rightarrow> TemplateItem \<Rightarrow> bool" where
  "named_by n x =
     (if fileExtension x = [] then n = filename x \<or> n = filename x @ ''.''
      else n = filename x @ CHR ''.'' # fileExtension x)"

definition spelled_in :: "string list \<Rightarrow> TemplateItem \<Rightarrow> bool" where
  "spelled_in ns t =
     list_all (\<lambda>x. is_file x \<longrightarrow> list_ex (\<lambda>n. named_by n x) ns) (nodes t)"

text \<open>A tree in which every size that \<^verbatim>\<open>stat\<close> answers is changed by \<open>f\<close>.\<close>

fun resize :: "(nat \<Rightarrow> nat) \<Rightarrow> fsnode \<Rightarrow> fsnode"
  and resize_entries :: "(nat \<Rightarrow> nat) \<Rightarrow> (string \<times> fsnode) list \<Rightarrow> (string \<times> fsnode) list" where
  "resize f (Directory es) = Directory (resize_entries f es)"
| "resize f (File st rd) = File (case st of Inl e \<Rightarrow> Inl e | Inr sz \<Rightarrow> Inr (f sz)) rd"
| "resize f UnreadableDirectory = UnreadableDirectory"
| "resize f Other = Other"
| "resize_entries f [] = []"
| "resize_entries f ((n, e) # es) = (n, resize f e) # resize_entries f es"

text \<open>A lowercase string has no capital letter \<^verbatim>\<open>A\<close> to \<^verbatim>\<open>Z\<close>.\<close>

definition lowercase :: "string \<Rightarrow> bool" where
  "lowercase s = list_all (\<lambda>c. \<not> (65 \<le> (of_char c :: nat) \<and> (of_char c :: nat) \<le> 90)) s"

section \<open>The loop of \<^verbatim>\<open>processDirectory\<close>\<close>

lemmas scan_eval =
  scanTemplateDirectory_def stat_def mergedOptions_def defaultOptions_def no_options_def
  or_empty_def includes_opt_def some_test_opt_def test_def swp_pattern_def dot_hash_pattern_def
  tilde_pattern_def file_item_def try_file_def catch_file_def too_large_def path_parse_def
  basename_def replace_dot_def Let_def EMPTY_TEMPLATE_def placeholder_def

text \<open>The items pushed so far stay in front of whatever the rest of the loop pushes.\<close>

lemma loop_acc: "loop es opts its h = (its @ fst (loop es opts [] h), snd (loop es opts [] h))"
proof (induction es arbitrary: its h)
  case Nil
  then show ?case by simp
next
  case (Cons a es)
  obtain n e where a: "a = (n, e)" by (cases a)
  have skip: "loop es opts its h' = (its @ fst (loop es opts [] h'), snd (loop es opts [] h'))"
    for h'
    by (rule Cons.IH)
  have push: "loop es opts (its @ [x]) h'
                = (its @ fst (loop es opts [x] h'), snd (loop es opts [x] h'))" for x h'
    using Cons.IH [of "its @ [x]" h'] Cons.IH [of "[x]" h'] by simp
  obtain folder hd where pd: "processDirectory n e opts h = (folder, hd)"
    by (cases "processDirectory n e opts h")
  obtain b hf where st: "some_test_opt (ignorePatterns opts) n h = (b, hf)"
    by (cases "some_test_opt (ignorePatterns opts) n h")
  show ?case
    unfolding a by (cases b) (simp_all add: pd st skip push)
qed

lemma loop_append:
  "loop (es1 @ es2) opts its h
     = (case loop es1 opts its h of (its', h') \<Rightarrow> loop es2 opts its' h')"
proof (induction es1 arbitrary: its h)
  case Nil
  then show ?case by simp
next
  case (Cons a es1)
  obtain n e where a: "a = (n, e)" by (cases a)
  obtain folder hd where pd: "processDirectory n e opts h = (folder, hd)"
    by (cases "processDirectory n e opts h")
  obtain b hf where st: "some_test_opt (ignorePatterns opts) n h = (b, hf)"
    by (cases "some_test_opt (ignorePatterns opts) n h")
  show ?case
    unfolding a by (cases b) (simp_all add: pd st Cons.IH)
qed

lemma loop_push:
  assumes "loop es opts [] h = (its', h')"
  shows "loop es opts (its @ [x]) h = (its @ x # its', h')"
  using loop_acc [of es opts "its @ [x]" h] assms by simp

text \<open>
  A file entry that the loop does not skip: the folder's items are those of the entries
  before it, then its node, then those of the entries after it.
\<close>

lemma processDirectory_retained_file:
  assumes "\<not> includes_opt (ignoreFiles opts) n"
    and "loop es1 opts [] h = (its1, h1)"
    and "some_test_opt (ignorePatterns opts) n h1 = (False, h2)"
    and "loop es2 opts [] h2 = (its2, h3)"
  shows "processDirectory d (Directory (es1 @ (n, File st rd) # es2)) opts h
         = (TemplateFolder d (its1 @ file_item n (File st rd) opts # its2), h3)"
  using assms by (simp add: loop_append loop_push)

text \<open>
  A directory entry that is not ignored: its folder node, built by the recursive call,
  takes its place among the items.
\<close>

lemma processDirectory_retained_folder:
  assumes "isDirectory e" and "\<not> includes_opt (ignoreFolders opts) n"
    and "loop es1 opts [] h = (its1, h1)"
    and "processDirectory n e opts h1 = (folder, h2)"
    and "loop es2 opts [] h2 = (its2, h3)"
  shows "processDirectory d (Directory (es1 @ (n, e) # es2)) opts h
         = (TemplateFolder d (its1 @ folder # its2), h3)"
  using assms by (simp add: loop_append loop_push)

text \<open>A file entry that the loop skips leaves no node.\<close>

lemma processDirectory_ignored_file:
  assumes "includes_opt (ignoreFiles opts) n \<or> b"
    and "loop es1 opts [] h = (its1, h1)"
    and "some_test_opt (ignorePatterns opts) n h1 = (b, h2)"
    and "loop es2 opts [] (if includes_opt (ignoreFiles opts) n then h1 else h2) = (its2, h3)"
  shows "processDirectory d (Directory (es1 @ (n, File st rd) # es2)) opts h
         = (TemplateFolder d (its1 @ its2), h3)"
  using assms loop_acc [of es2 opts its1 h1] loop_acc [of es2 opts its1 h2]
  by (auto simp add: loop_append)

text \<open>Patterns without the \<^verbatim>\<open>g\<close> and \<^verbatim>\<open>y\<close> flags: the test is a plain match from index 0.\<close>

lemma some_test_stateless:
  assumes "list_all (\<lambda>p. \<not> global_or_sticky p) ps"
  shows "some_test ps s h = (list_ex (\<lambda>p. exec_from p s 0 \<noteq> None) ps, h)"
  using assms by (induction ps) (auto simp: test_def bool.case_eq_if)

section \<open>Names and extensions\<close>

lemma basename_single_segment: "single_segment (basename p)"
  by (auto simp: single_segment_def basename_def dest: set_takeWhileD)

lemma path_parse_name_subset: "set (name (path_parse p)) \<subseteq> set (basename p)"
  by (auto simp: path_parse_def Let_def dest!: in_set_dropD set_dropWhileD)

lemma path_parse_name_single_segment: "single_segment (name (path_parse p))"
  using path_parse_name_subset [of p] basename_single_segment [of p]
  by (auto simp: single_segment_def)

lemma replace_dot_ext: "CHR ''.'' \<notin> set (replace_dot (ext (path_parse p)))"
  by (auto simp: path_parse_def Let_def replace_dot_def dest: set_takeWhileD)

lemma split_at_last_dot:
  assumes "CHR ''.'' \<in> set b"
  shows "rev (drop 1 (dropWhile (\<lambda>c. c \<noteq> CHR ''.'') (rev b)))
           @ CHR ''.'' # rev (takeWhile (\<lambda>c. c \<noteq> CHR ''.'') (rev b)) = b"
proof -
  let ?P = "\<lambda>c. c \<noteq> CHR ''.''"
  from assms have ne: "dropWhile ?P (rev b) \<noteq> []" by simp
  then have "\<not> ?P (hd (dropWhile ?P (rev b)))" by (rule hd_dropWhile)
  with ne have dw: "dropWhile ?P (rev b) = CHR ''.'' # drop 1 (dropWhile ?P (rev b))"
    by (cases "dropWhile ?P (rev b)") simp_all
  have "rev (rev b) = rev (takeWhile ?P (rev b) @ dropWhile ?P (rev b))"
    by (simp only: takeWhile_dropWhile_id)
  also have "\<dots> = rev (dropWhile ?P (rev b)) @ rev (takeWhile ?P (rev b))"
    by (simp only: rev_append)
  also have "\<dots> = rev (CHR ''.'' # drop 1 (dropWhile ?P (rev b))) @ rev (takeWhile ?P (rev b))"
    using dw by simp
  finally show ?thesis by simp
qed

text \<open>\<^verbatim>\<open>path.parse\<close> splits the base name; nothing is lost and no letter changes case.\<close>

lemma path_parse_name_ext: "name (path_parse p) @ ext (path_parse p) = basename p"
  using split_at_last_dot [of "basename p"] by (simp add: path_parse_def Let_def)

lemma file_item_ok: "node_ok (file_item n e opts)"
  by (auto simp: node_ok_def file_item_def try_file_def catch_file_def Let_def
      path_parse_name_single_segment replace_dot_ext split: sum.splits)

lemma is_file_file_item: "is_file (file_item n e opts)"
  by (cases "stat_size e"; cases "read_utf8 e")
     (simp_all add: file_item_def try_file_def catch_file_def Let_def)

lemma nodes_is_file: "is_file x \<Longrightarrow> nodes x = [x]"
  by (cases x) simp_all

lemma nodes_file_item_ok: "list_all node_ok (nodes (file_item n e opts))"
  by (simp add: nodes_is_file is_file_file_item file_item_ok)

lemma nodes_ok_invariant:
  "single_segment d \<Longrightarrow> names_ok e \<Longrightarrow> list_all node_ok (nodes (fst (processDirectory d e opts h)))"
  "entries_ok es \<Longrightarrow> list_all (\<lambda>i. list_all node_ok (nodes i)) its \<Longrightarrow>
     list_all (\<lambda>i. list_all node_ok (nodes i)) (fst (loop es opts its h))"
proof (induction d e opts h and es opts its h rule: processDirectory_loop.induct)
  case (1 fname entries options h)
  have "list_all (\<lambda>i. list_all node_ok (nodes i)) (fst (loop entries options [] h))"
    using 1 by simp
  then show ?case
    using 1(2) by (simp add: node_ok_def list_all_iff split: prod.splits)
next
  case (6 entryName entry entries options its h)
  obtain folder hd where pd: "processDirectory entryName entry options h = (folder, hd)"
    by (cases "processDirectory entryName entry options h")
  obtain b hf where st: "some_test_opt (ignorePatterns options) entryName h = (b, hf)"
    by (cases "some_test_opt (ignorePatterns options) entryName h")
  from \<open>entries_ok ((entryName, entry) # entries)\<close> have seg: "single_segment entryName" and eok: "names_ok entry"
    and esok: "entries_ok entries" by simp_all
  show ?case
  proof (cases "isDirectory entry")
    case True
    show ?thesis
    proof (cases "includes_opt (ignoreFolders options) entryName")
      case True
      with \<open>isDirectory entry\<close> "6.IH"(1) esok \<open>list_all (\<lambda>i. list_all node_ok (nodes i)) its\<close> show ?thesis by simp
    next
      case False
      have "list_all node_ok (nodes folder)"
        using "6.IH"(2) [OF \<open>isDirectory entry\<close> False seg eok] pd by simp
      with \<open>list_all (\<lambda>i. list_all node_ok (nodes i)) its\<close> have "list_all (\<lambda>i. list_all node_ok (nodes i)) (its @ [folder])" by simp
      from "6.IH"(3) [OF \<open>isDirectory entry\<close> False pd [symmetric] esok this]
      show ?thesis using \<open>isDirectory entry\<close> False pd by simp
    qed
  next
    case nd: False
    show ?thesis
    proof (cases "isFile entry")
      case True
      show ?thesis
      proof (cases "includes_opt (ignoreFiles options) entryName")
        case True
        with nd \<open>isFile entry\<close> "6.IH"(4) esok \<open>list_all (\<lambda>i. list_all node_ok (nodes i)) its\<close> show ?thesis by simp
      next
        case False
        show ?thesis
        proof (cases b)
          case True
          then have st': "(True, hf) = some_test_opt (ignorePatterns options) entryName h"
            using st by simp
          from "6.IH"(5) [OF nd \<open>isFile entry\<close> False st' refl esok
              \<open>list_all (\<lambda>i. list_all node_ok (nodes i)) its\<close>]
          show ?thesis using nd \<open>isFile entry\<close> False st' [symmetric] by simp
        next
          case bf: False
          have "list_all (\<lambda>i. list_all node_ok (nodes i)) (its @ [file_item entryName entry options])"
            using \<open>list_all (\<lambda>i. list_all node_ok (nodes i)) its\<close> by (simp add: nodes_file_item_ok)
          moreover have st': "(False, hf) = some_test_opt (ignorePatterns options) entryName h"
            using st bf by simp
          ultimately show ?thesis
            using "6.IH"(6) [OF nd \<open>isFile entry\<close> False st' refl esok]
              nd \<open>isFile entry\<close> False st' [symmetric] by simp
        qed
      qed
    next
      case False
      with nd "6.IH"(7) esok \<open>list_all (\<lambda>i. list_all node_ok (nodes i)) its\<close> show ?thesis by simp
    qed
  qed
qed (simp_all add: node_ok_def)

section \<open>The fallback for a missing root\<close>

text \<open>
  C3. When \<^verbatim>\<open>stat\<close> rejects on the root path, or the root is not a directory, the scan
  resolves (it does not reject) with the folder named \<^verbatim>\<open>empty-template\<close> that has no
  items, whatever the options, and touches no pattern object.
\<close>

theorem scan_missing_root_gives_empty_template:
  assumes "fs templatePath = None \<or> (\<exists>n. fs templatePath = Some n \<and> \<not> isDirectory n)"
  shows "scanTemplateDirectory fs templatePath options h
         = (Inr (TemplateFolder ''empty-template'' []), h)"
  using assms by (auto simp: scanTemplateDirectory_def stat_def EMPTY_TEMPLATE_def Let_def)

theorem scan_missing_root_witness:
  "scanTemplateDirectory (\<lambda>p. None) ''/no/such/dir'' None (\<lambda>i. 0)
     = (Inr (TemplateFolder ''empty-template'' []), (\<lambda>i. 0))
   \<and> scanTemplateDirectory (\<lambda>p. Some (File (Inr 1) (Inr ''x''))) ''/a/file.txt'' None (\<lambda>i. 0)
     = (Inr (TemplateFolder ''empty-template'' []), (\<lambda>i. 0))"
  using scan_missing_root_gives_empty_template [of "\<lambda>p. None" "''/no/such/dir''" None "\<lambda>i. 0"]
    scan_missing_root_gives_empty_template
      [of "\<lambda>p. Some (File (Inr 1) (Inr ''x''))" "''/a/file.txt''" None "\<lambda>i. 0"]
  by simp

section \<open>The effective options\<close>

text \<open>
  C8. The options the scan works with hold the default file names, folder names and
  patterns first and the caller's after them; the size bound is the caller's when the
  caller gives one and 1048576 (1 MiB) otherwise. These are the options that
  \<^verbatim>\<open>processDirectory\<close> receives for a root that is a directory.
\<close>

theorem merged_options_append_to_defaults:
  "ignoreFiles (mergedOptions options)
     = Some ([''package-lock.json'', ''yarn.lock'', ''.DS_Store'', ''thumbs.db'', ''.gitignore'',
              ''.npmrc'', ''.yarnrc'', ''.env'', ''.env.local'', ''.env.development'',
              ''.env.production''] @ or_empty (ignoreFiles options))
   \<and> ignoreFolders (mergedOptions options)
     = Some ([''node_modules'', ''.git'', ''.vscode'', ''.idea'', ''dist'', ''build'', ''coverage'']
             @ or_empty (ignoreFolders options))
   \<and> ignorePatterns (mergedOptions options)
     = Some ([swp_pattern, dot_hash_pattern, tilde_pattern] @ or_empty (ignorePatterns options))
   \<and> maxFileSize (mergedOptions options)
     = Some (case maxFileSize options of None \<Rightarrow> 1048576 | Some m \<Rightarrow> m)
   \<and> (fs templatePath = Some root \<and> isDirectory root \<longrightarrow>
        scanTemplateDirectory fs templatePath (Some options) h
        = (case processDirectory (basename templatePath) root (mergedOptions options) h of
             (folder, h') \<Rightarrow> (Inr folder, h')))"
  by (cases "maxFileSize options")
     (simp_all add: mergedOptions_def defaultOptions_def or_empty_def
        scanTemplateDirectory_def stat_def Let_def)

theorem merged_options_witness:
  "ignoreFiles (mergedOptions \<lparr>ignoreFiles = Some [''notes.txt''], ignoreFolders = None,
       ignorePatterns = None, maxFileSize = Some 5\<rparr>)
     = Some [''package-lock.json'', ''yarn.lock'', ''.DS_Store'', ''thumbs.db'', ''.gitignore'',
             ''.npmrc'', ''.yarnrc'', ''.env'', ''.env.local'', ''.env.development'',
             ''.env.production'', ''notes.txt'']
   \<and> maxFileSize (mergedOptions \<lparr>ignoreFiles = Some [''notes.txt''], ignoreFolders = None,
       ignorePatterns = None, maxFileSize = Some 5\<rparr>) = Some 5
   \<and> maxFileSize (mergedOptions no_options) = Some 1048576
   \<and> scanTemplateDirectory [''/t'' \<mapsto> Directory [(''notes.txt'', File (Inr 2) (Inr ''hi''))]] ''/t''
       (Some \<lparr>ignoreFiles = Some [''notes.txt''], ignoreFolders = None,
          ignorePatterns = None, maxFileSize = Some 5\<rparr>) (\<lambda>i. 0)
     = (Inr (TemplateFolder ''t'' []), (\<lambda>i. 0))"
proof -
  let ?o = "\<lparr>ignoreFiles = Some [''notes.txt''], ignoreFolders = None,
              ignorePatterns = None, maxFileSize = Some 5\<rparr>"
  let ?root = "Directory [(''notes.txt'', File (Inr 2) (Inr ''hi''))]"
  have m: "ignoreFiles (mergedOptions ?o)
             = Some ([''package-lock.json'', ''yarn.lock'', ''.DS_Store'', ''thumbs.db'',
                  ''.gitignore'', ''.npmrc'', ''.yarnrc'', ''.env'', ''.env.local'',
                  ''.env.development'', ''.env.production''] @ or_empty (ignoreFiles ?o))"
    and sz: "maxFileSize (mergedOptions ?o)
             = Some (case maxFileSize ?o of None \<Rightarrow> 1048576 | Some m \<Rightarrow> m)"
    and sc: "[''/t'' \<mapsto> ?root] ''/t'' = Some ?root \<and> isDirectory ?root \<longrightarrow>
             scanTemplateDirectory [''/t'' \<mapsto> ?root] ''/t'' (Some ?o) (\<lambda>i. 0)
             = (case processDirectory (basename ''/t'') ?root (mergedOptions ?o) (\<lambda>i. 0) of
                  (folder, h') \<Rightarrow> (Inr folder, h'))"
    using merged_options_append_to_defaults [of ?o "[''/t'' \<mapsto> ?root]" "''/t''" ?root "\<lambda>i. 0"]
    by blast+
  have d: "maxFileSize (mergedOptions no_options)
             = Some (case maxFileSize no_options of None \<Rightarrow> 1048576 | Some m \<Rightarrow> m)"
    using merged_options_append_to_defaults [of no_options] by blast
  have pd: "processDirectory (basename ''/t'') ?root (mergedOptions ?o) (\<lambda>i. 0)
              = (TemplateFolder ''t'' [], (\<lambda>i. 0))"
    using m by (simp add: includes_opt_def or_empty_def basename_def)
  show ?thesis
    using m sz sc d pd by (simp add: or_empty_def no_options_def)
qed

section \<open>Ignored folders\<close>

lemma isDirectory_prune [simp]: "isDirectory (prune ig e) = isDirectory e"
  by (cases e) simp_all

lemma isFile_prune [simp]: "isFile (prune ig e) = isFile e"
  by (cases e) simp_all

lemma prune_file [simp]: "isFile e \<Longrightarrow> prune ig e = e"
  by (cases e) simp_all

text \<open>The scanner does not see whether the directories to ignore are there.\<close>

lemma scan_of_pruned:
  "ignoreFolders opts = Some ig \<Longrightarrow>
     processDirectory d (prune ig e) opts h = processDirectory d e opts h"
  "ignoreFolders opts = Some ig \<Longrightarrow>
     loop (prune_entries ig es) opts its h = loop es opts its h"
proof (induction ig e and ig es arbitrary: d h and its h rule: prune_prune_entries.induct)
  case (6 ig n e es)
  then show ?case
    by (cases "isDirectory e") (auto simp: includes_opt_def split: prod.splits bool.splits)
qed simp_all

text \<open>
  C6. A directory entry whose name is among the merged folder names to ignore is
  skipped before any descent: the folder node built for the directory that lists it, and
  the state of the pattern objects, are those of the same listing without that entry,
  whatever the ignored directory holds. This is so at every depth, as every directory
  is handled by \<^verbatim>\<open>processDirectory\<close>: the scan of a tree is the scan of the tree from
  which every such directory has been taken out.
\<close>

theorem ignored_folder_is_pruned:
  assumes "isDirectory entry" and "entryName \<in> set ig"
    and "ig = or_empty (ignoreFolders defaultOptions) @ or_empty (ignoreFolders options)"
  shows "processDirectory d (Directory (es1 @ (entryName, entry) # es2)) (mergedOptions options) h
           = processDirectory d (Directory (es1 @ es2)) (mergedOptions options) h
         \<and> scanTemplateDirectory (\<lambda>p. map_option (prune ig) (fs p)) templatePath
             (Some options) h0
           = scanTemplateDirectory fs templatePath (Some options) h0"
proof -
  have ig: "ignoreFolders (mergedOptions options) = Some ig"
    using assms(3) by (simp add: mergedOptions_def)
  have "processDirectory d (Directory (es1 @ (entryName, entry) # es2)) (mergedOptions options) h
           = processDirectory d (Directory (es1 @ es2)) (mergedOptions options) h"
    using assms(1,2) ig by (simp add: loop_append includes_opt_def split: prod.splits)
  moreover have "scanTemplateDirectory (\<lambda>p. map_option (prune ig) (fs p)) templatePath
             (Some options) h0
           = scanTemplateDirectory fs templatePath (Some options) h0"
    by (cases "fs templatePath")
       (simp_all add: scanTemplateDirectory_def stat_def Let_def scan_of_pruned(1) [OF ig])
  ultimately show ?thesis by simp
qed

theorem ignored_folder_witness:
  "processDirectory ''proj''
     (Directory [(''a.txt'', File (Inr 5) (Inr ''hello'')),
                 (''node_modules'', Directory [(''index.js'', File (Inr 2) (Inr ''hi''))]),
                 (''cache'', Directory [(''b.txt'', File (Inr 1) (Inr ''b''))])])
     (mergedOptions \<lparr>ignoreFiles = None, ignoreFolders = Some [''cache''],
        ignorePatterns = None, maxFileSize = None\<rparr>) (\<lambda>i. 0)
   = (TemplateFolder ''proj'' [TemplateFile ''a'' ''txt'' ''hello''], (\<lambda>i. 0))"
proof -
  let ?opts = "\<lparr>ignoreFiles = None, ignoreFolders = Some [''cache''],
                 ignorePatterns = None, maxFileSize = None\<rparr>"
  let ?a = "(''a.txt'', File (Inr 5) (Inr ''hello''))"
  let ?nm = "Directory [(''index.js'', File (Inr 2) (Inr ''hi''))]"
  let ?c = "Directory [(''b.txt'', File (Inr 1) (Inr ''b''))]"
  let ?ig = "or_empty (ignoreFolders defaultOptions) @ or_empty (ignoreFolders ?opts)"
  have nm: "isDirectory ?nm" and c: "isDirectory ?c"
    and nm_in: "''node_modules'' \<in> set ?ig" and c_in: "''cache'' \<in> set ?ig"
    by (simp_all add: or_empty_def defaultOptions_def)
  have 1: "processDirectory ''proj'' (Directory ([?a] @ (''node_modules'', ?nm) # [(''cache'', ?c)]))
             (mergedOptions ?opts) (\<lambda>i. 0)
           = processDirectory ''proj'' (Directory ([?a] @ [(''cache'', ?c)]))
               (mergedOptions ?opts) (\<lambda>i. 0)"
    using ignored_folder_is_pruned [OF nm nm_in refl] by (rule conjunct1)
  have 2: "processDirectory ''proj'' (Directory ([?a] @ (''cache'', ?c) # []))
             (mergedOptions ?opts) (\<lambda>i. 0)
           = processDirectory ''proj'' (Directory ([?a] @ [])) (mergedOptions ?opts) (\<lambda>i. 0)"
    using ignored_folder_is_pruned [OF c c_in refl] by (rule conjunct1)
  have 3: "processDirectory ''proj'' (Directory [?a]) (mergedOptions ?opts) (\<lambda>i. 0)
           = (TemplateFolder ''proj'' [TemplateFile ''a'' ''txt'' ''hello''], (\<lambda>i. 0))"
    by (simp add: scan_eval)
  from 1 2 3 show ?thesis by simp
qed

section \<open>The size bound\<close>

text \<open>
  C4 as stated fails for the bound 0: \<^verbatim>\<open>options.maxFileSize && ...\<close> takes 0 for false,
  so a file of 5 bytes, larger than the bound 0, keeps its content.
\<close>

theorem size_bound_zero_counterexample:
  "scanTemplateDirectory [''/t'' \<mapsto> Directory [(''a.txt'', File (Inr 5) (Inr ''hello''))]] ''/t''
     (Some \<lparr>ignoreFiles = None, ignoreFolders = None, ignorePatterns = None,
        maxFileSize = Some 0\<rparr>) (\<lambda>i. 0)
   = (Inr (TemplateFolder ''t'' [TemplateFile ''a'' ''txt'' ''hello'']), (\<lambda>i. 0))
   \<and> (0::int) < int 5 \<and> ''hello'' \<noteq> placeholder 5"
  by (simp add: scan_eval show_nat.simps)

text \<open>
  C4, amended. Let the effective bound \<open>m\<close> be other than 0, and let a file entry be
  retained (its name is not among the names to ignore and no pattern answers true when
  the loop reaches it) with \<^verbatim>\<open>stat\<close> answering the size \<open>sz\<close>. Then the folder has, between
  the items of the entries before and after, a node for the file whose content is
  \<^verbatim>\<open>[File too large: sz bytes]\<close> with \<open>sz\<close> in decimal when \<open>sz\<close> exceeds \<open>m\<close>, and the text
  that \<^verbatim>\<open>readFile\<close> answers when \<open>sz\<close> is at most \<open>m\<close> (the empty text when it rejects).
\<close>

theorem oversized_file_gets_placeholder:
  assumes "\<not> includes_opt (ignoreFiles opts) n"
    and "loop es1 opts [] h = (its1, h1)"
    and "some_test_opt (ignorePatterns opts) n h1 = (False, h2)"
    and "loop es2 opts [] h2 = (its2, h3)"
    and "maxFileSize opts = Some m" and "m \<noteq> 0"
  shows "processDirectory d (Directory (es1 @ (n, File (Inr sz) rd) # es2)) opts h
         = (TemplateFolder d
              (its1 @ TemplateFile (name (path_parse n)) (replace_dot (ext (path_parse n)))
                        (if m < int sz then ''[File too large: '' @ show_nat sz @ '' bytes]''
                         else case rd of Inr c \<Rightarrow> c | Inl e \<Rightarrow> [])
                    # its2), h3)"
proof -
  have "file_item n (File (Inr sz) rd) opts
        = TemplateFile (name (path_parse n)) (replace_dot (ext (path_parse n)))
            (if m < int sz then ''[File too large: '' @ show_nat sz @ '' bytes]''
             else case rd of Inr c \<Rightarrow> c | Inl e \<Rightarrow> [])"
    using assms(5,6)
    by (cases rd)
       (simp_all add: file_item_def try_file_def catch_file_def too_large_def placeholder_def
          Let_def)
  with processDirectory_retained_file [OF assms(1-4)] show ?thesis by simp
qed

theorem oversized_file_witness:
  "processDirectory ''proj''
     (Directory [(''big.bin'', File (Inr 12) (Inr ''0123456789ab'')),
                 (''ok.txt'', File (Inr 2) (Inr ''hi''))])
     (mergedOptions \<lparr>ignoreFiles = None, ignoreFolders = None, ignorePatterns = None,
        maxFileSize = Some 3\<rparr>) (\<lambda>i. 0)
   = (TemplateFolder ''proj''
        [TemplateFile ''big'' ''bin'' ''[File too large: 12 bytes]'',
         TemplateFile ''ok'' ''txt'' ''hi''], (\<lambda>i. 0))"
proof -
  let ?opts = "mergedOptions \<lparr>ignoreFiles = None, ignoreFolders = None, ignorePatterns = None,
                 maxFileSize = Some 3\<rparr>"
  let ?h = "\<lambda>i::nat. 0::nat"
  have a: "\<not> includes_opt (ignoreFiles ?opts) ''big.bin''"
    and b: "loop [] ?opts [] ?h = ([], ?h)"
    and c: "some_test_opt (ignorePatterns ?opts) ''big.bin'' ?h = (False, ?h)"
    and d: "loop [(''ok.txt'', File (Inr 2) (Inr ''hi''))] ?opts [] ?h
            = ([TemplateFile ''ok'' ''txt'' ''hi''], ?h)"
    and e: "maxFileSize ?opts = Some 3" and f: "(3::int) \<noteq> 0"
    by (simp_all add: scan_eval)
  from oversized_file_gets_placeholder [OF a b c d e f, of "''proj''" 12 "Inr ''0123456789ab''"]
  show ?thesis by (simp add: path_parse_def basename_def replace_dot_def show_nat.simps)
qed

lemma isDirectory_resize [simp]: "isDirectory (resize f e) = isDirectory e"
  by (cases e) simp_all

lemma isFile_resize [simp]: "isFile (resize f e) = isFile e"
  by (cases e) simp_all

lemma file_item_resize:
  "maxFileSize opts = Some 0 \<Longrightarrow> isFile e \<Longrightarrow>
     file_item n (resize f e) opts = file_item n e opts"
  by (cases e; cases "stat_size e")
     (simp_all add: file_item_def try_file_def catch_file_def too_large_def Let_def)

text \<open>Under the bound 0 the scanner does not see the sizes.\<close>

lemma scan_of_resized:
  "maxFileSize opts = Some 0 \<Longrightarrow>
     processDirectory d (resize f e) opts h = processDirectory d e opts h"
  "maxFileSize opts = Some 0 \<Longrightarrow>
     loop (resize_entries f es) opts its h = loop es opts its h"
proof (induction f e and f es arbitrary: d h and its h rule: resize_resize_entries.induct)
  case (6 f n e es)
  then show ?case
    by (auto simp: file_item_resize split: prod.splits bool.splits)
qed simp_all

text \<open>
  C10 as stated fails for a retained file that cannot be read: under the bound 0 the
  read is attempted, it rejects, and the \<^verbatim>\<open>catch\<close> block stores the empty content, not the
  5 bytes of the file.
\<close>

theorem size_bound_zero_unreadable_counterexample:
  "scanTemplateDirectory
     [''/t'' \<mapsto> Directory [(''a.txt'', File (Inr 5) (Inl IOError))]] ''/t''
     (Some \<lparr>ignoreFiles = None, ignoreFolders = None, ignorePatterns = None,
        maxFileSize = Some 0\<rparr>) (\<lambda>i. 0)
   = (Inr (TemplateFolder ''t'' [TemplateFile ''a'' ''txt'' []]), (\<lambda>i. 0))"
  by (simp add: scan_eval)

text \<open>
  C10, amended. When the caller gives the bound 0, the scan stores, for a retained file
  of the root listing (and \<^verbatim>\<open>processDirectory\<close> for a retained file of any listing), the
  text that \<^verbatim>\<open>readFile\<close> answers, whatever the size that \<^verbatim>\<open>stat\<close> answers, and the empty
  text when \<^verbatim>\<open>stat\<close> or \<^verbatim>\<open>readFile\<close> rejects. No file gets the marker: no size is too
  large, and the scan of a tree is the scan of the same tree with every size changed.
\<close>

theorem size_bound_zero_disables_bound:
  assumes "maxFileSize options = Some 0"
    and "\<not> includes_opt (ignoreFiles (mergedOptions options)) n"
    and "loop es1 (mergedOptions options) [] h = (its1, h1)"
    and "some_test_opt (ignorePatterns (mergedOptions options)) n h1 = (False, h2)"
    and "loop es2 (mergedOptions options) [] h2 = (its2, h3)"
  shows "(fs templatePath = Some (Directory (es1 @ (n, File st rd) # es2)) \<longrightarrow>
            scanTemplateDirectory fs templatePath (Some options) h
            = (Inr (TemplateFolder (basename templatePath)
                 (its1 @ TemplateFile (name (path_parse n)) (replace_dot (ext (path_parse n)))
                           (case st of
                              Inl e \<Rightarrow> []
                            | Inr sz \<Rightarrow> (case rd of Inl e \<Rightarrow> [] | Inr c \<Rightarrow> c))
                       # its2)), h3))
         \<and> processDirectory d (Directory (es1 @ (n, File st rd) # es2)) (mergedOptions options) h
           = (TemplateFolder d
                (its1 @ TemplateFile (name (path_parse n)) (replace_dot (ext (path_parse n)))
                          (case st of
                             Inl e \<Rightarrow> []
                           | Inr sz \<Rightarrow> (case rd of Inl e \<Rightarrow> [] | Inr c \<Rightarrow> c))
                      # its2), h3)
         \<and> scanTemplateDirectory (\<lambda>p. map_option (resize f) (fs p)) templatePath
             (Some options) h0
           = scanTemplateDirectory fs templatePath (Some options) h0
         \<and> \<not> too_large (maxFileSize (mergedOptions options)) sz'"
proof -
  let ?item = "TemplateFile (name (path_parse n)) (replace_dot (ext (path_parse n)))
                 (case st of Inl e \<Rightarrow> [] | Inr sz \<Rightarrow> (case rd of Inl e \<Rightarrow> [] | Inr c \<Rightarrow> c))"
  have m: "maxFileSize (mergedOptions options) = Some 0"
    using assms(1) by (simp add: mergedOptions_def)
  then have "file_item n (File st rd) (mergedOptions options) = ?item"
    by (cases st; cases rd)
       (simp_all add: file_item_def try_file_def catch_file_def too_large_def Let_def)
  with processDirectory_retained_file [OF assms(2-5)]
  have pd: "processDirectory d' (Directory (es1 @ (n, File st rd) # es2)) (mergedOptions options) h
            = (TemplateFolder d' (its1 @ ?item # its2), h3)" for d'
    by simp
  have sc: "fs templatePath = Some (Directory (es1 @ (n, File st rd) # es2)) \<longrightarrow>
            scanTemplateDirectory fs templatePath (Some options) h
            = (Inr (TemplateFolder (basename templatePath) (its1 @ ?item # its2)), h3)"
    by (simp add: scanTemplateDirectory_def stat_def Let_def pd del: processDirectory.simps)
  have rs: "scanTemplateDirectory (\<lambda>p. map_option (resize f) (fs p)) templatePath
             (Some options) h0
           = scanTemplateDirectory fs templatePath (Some options) h0"
    by (cases "fs templatePath")
       (simp_all add: scanTemplateDirectory_def stat_def Let_def scan_of_resized(1) [OF m])
  from sc pd [of d] rs m show ?thesis by (simp add: too_large_def del: processDirectory.simps)
qed

theorem size_bound_zero_witness:
  "scanTemplateDirectory
     [''/t/proj'' \<mapsto> Directory [(''big.bin'', File (Inr 5000000) (Inr ''all of it'')),
                              (''ok.txt'', File (Inr 2) (Inr ''hi''))]] ''/t/proj''
     (Some \<lparr>ignoreFiles = None, ignoreFolders = None, ignorePatterns = None,
        maxFileSize = Some 0\<rparr>) (\<lambda>i. 0)
   = (Inr (TemplateFolder ''proj''
        [TemplateFile ''big'' ''bin'' ''all of it'', TemplateFile ''ok'' ''txt'' ''hi'']),
      (\<lambda>i. 0))
   \<and> \<not> too_large (maxFileSize (mergedOptions \<lparr>ignoreFiles = None, ignoreFolders = None,
        ignorePatterns = None, maxFileSize = Some 0\<rparr>)) 5000000"
proof -
  let ?o = "\<lparr>ignoreFiles = None, ignoreFolders = None, ignorePatterns = None,
              maxFileSize = Some (0::int)\<rparr>"
  let ?h = "\<lambda>i::nat. 0::nat"
  let ?ok = "(''ok.txt'', File (Inr 2) (Inr ''hi''))"
  let ?fs = "[''/t/proj'' \<mapsto> Directory ([] @ (''big.bin'', File (Inr 5000000) (Inr ''all of it''))
                                        # [?ok])]"
  have z: "maxFileSize ?o = Some 0"
    and a: "\<not> includes_opt (ignoreFiles (mergedOptions ?o)) ''big.bin''"
    and b: "loop [] (mergedOptions ?o) [] ?h = ([], ?h)"
    and c: "some_test_opt (ignorePatterns (mergedOptions ?o)) ''big.bin'' ?h = (False, ?h)"
    and d: "loop [?ok] (mergedOptions ?o) [] ?h = ([TemplateFile ''ok'' ''txt'' ''hi''], ?h)"
    by (simp_all add: scan_eval)
  have root: "?fs ''/t/proj''
              = Some (Directory ([] @ (''big.bin'', File (Inr 5000000) (Inr ''all of it'')) # [?ok]))"
    by simp
  from size_bound_zero_disables_bound
    [OF z a b c d, of ?fs "''/t/proj''" "Inr 5000000" "Inr ''all of it''" _ _ _ 5000000] root
  show ?thesis
    by (simp add: path_parse_def basename_def replace_dot_def del: processDirectory.simps)
qed

section \<open>Entries that cannot be read\<close>

text \<open>
  C9 as stated fails for a file that \<^verbatim>\<open>stat\<close> can size and \<^verbatim>\<open>readFile\<close> cannot read, when
  the size is over the bound: the bound is checked before any read, so the node holds
  the marker, not the empty text.
\<close>

theorem unreadable_large_file_counterexample:
  "scanTemplateDirectory
     [''/t'' \<mapsto> Directory [(''big.bin'', File (Inr 2000000) (Inl IOError))]] ''/t'' None (\<lambda>i. 0)
   = (Inr (TemplateFolder ''t''
        [TemplateFile ''big'' ''bin'' ''[File too large: 2000000 bytes]'']), (\<lambda>i. 0))
   \<and> ''[File too large: 2000000 bytes]'' \<noteq> []"
  by (simp add: scan_eval show_nat.simps)

text \<open>
  C9, amended. A retained file entry for which \<^verbatim>\<open>stat\<close> rejects, or for which \<^verbatim>\<open>stat\<close>
  answers a size that is not over the bound and \<^verbatim>\<open>readFile\<close> rejects, gets a node with
  the name and the extension of the entry and the empty content, placed between the
  items of the entries before it and those of the entries after it, which are handled
  as usual; and the scan always resolves.
\<close>

theorem unreadable_file_gets_empty_content:
  assumes "\<not> includes_opt (ignoreFiles opts) n"
    and "loop es1 opts [] h = (its1, h1)"
    and "some_test_opt (ignorePatterns opts) n h1 = (False, h2)"
    and "loop es2 opts [] h2 = (its2, h3)"
    and "st = Inl e \<or> (\<exists>sz. st = Inr sz \<and> \<not> too_large (maxFileSize opts) sz \<and> rd = Inl e)"
  shows "processDirectory d (Directory (es1 @ (n, File st rd) # es2)) opts h
           = (TemplateFolder d
                (its1 @ TemplateFile (name (path_parse n)) (replace_dot (ext (path_parse n))) []
                      # its2), h3)
         \<and> (\<exists>t h'. scanTemplateDirectory fs templatePath options h0 = (Inr t, h'))"
proof -
  have "file_item n (File st rd) opts
        = TemplateFile (name (path_parse n)) (replace_dot (ext (path_parse n))) []"
    using assms(5)
    by (auto simp: file_item_def try_file_def catch_file_def Let_def)
  with processDirectory_retained_file [OF assms(1-4)]
  have "processDirectory d (Directory (es1 @ (n, File st rd) # es2)) opts h
           = (TemplateFolder d
                (its1 @ TemplateFile (name (path_parse n)) (replace_dot (ext (path_parse n))) []
                      # its2), h3)"
    by simp
  moreover have "\<exists>t h'. scanTemplateDirectory fs templatePath options h0 = (Inr t, h')"
    by (simp add: scanTemplateDirectory_def Let_def split: sum.splits prod.splits)
  ultimately show ?thesis by simp
qed

theorem unreadable_file_witness:
  "processDirectory ''proj''
     (Directory [(''gone.txt'', File (Inl IOError) (Inl IOError)),
                 (''locked.md'', File (Inr 7) (Inl IOError)),
                 (''ok.txt'', File (Inr 2) (Inr ''hi''))])
     (mergedOptions no_options) (\<lambda>i. 0)
   = (TemplateFolder ''proj''
        [TemplateFile ''gone'' ''txt'' [], TemplateFile ''locked'' ''md'' [],
         TemplateFile ''ok'' ''txt'' ''hi''], (\<lambda>i. 0))"
proof -
  let ?opts = "mergedOptions no_options"
  let ?h = "\<lambda>i::nat. 0::nat"
  let ?gone = "(''gone.txt'', File (Inl IOError) (Inl IOError))"
  have a: "\<not> includes_opt (ignoreFiles ?opts) ''locked.md''"
    and b: "loop [?gone] ?opts [] ?h = ([TemplateFile ''gone'' ''txt'' []], ?h)"
    and c: "some_test_opt (ignorePatterns ?opts) ''locked.md'' ?h = (False, ?h)"
    and d: "loop [(''ok.txt'', File (Inr 2) (Inr ''hi''))] ?opts [] ?h
            = ([TemplateFile ''ok'' ''txt'' ''hi''], ?h)"
    and e: "Inr 7 = Inl IOError
            \<or> (\<exists>sz. Inr 7 = Inr sz \<and> \<not> too_large (maxFileSize ?opts) sz
                      \<and> (Inl IOError :: error + string) = Inl IOError)"
    by (simp_all add: scan_eval)
  from unreadable_file_gets_empty_content [OF a b c d e, of "''proj''"]
  show ?thesis by (simp add: path_parse_def basename_def replace_dot_def)
qed

section \<open>Names and extensions of the nodes\<close>

text \<open>
  C5 as stated fails on the letter case: nothing in the scanner changes the case of an
  extension, so the entry \<^verbatim>\<open>README.MD\<close> gets the extension \<^verbatim>\<open>MD\<close>.
\<close>

theorem uppercase_extension_counterexample:
  "scanTemplateDirectory
     [''/t'' \<mapsto> Directory [(''README.MD'', File (Inr 2) (Inr ''hi''))]] ''/t'' None (\<lambda>i. 0)
   = (Inr (TemplateFolder ''t'' [TemplateFile ''README'' ''MD'' ''hi'']), (\<lambda>i. 0))
   \<and> \<not> lowercase ''MD''"
  by (simp add: scan_eval lowercase_def)

lemma basename_single_segment_id: "single_segment n \<Longrightarrow> basename n = n"
proof -
  assume "single_segment n"
  then have a: "\<forall>c \<in> set (rev n). c \<noteq> CHR ''/''" by (auto simp: single_segment_def)
  then have "dropWhile (\<lambda>c. c = CHR ''/'') (rev n) = rev n"
    by (cases "rev n") auto
  moreover from a have "takeWhile (\<lambda>c. c \<noteq> CHR ''/'') (rev n) = rev n"
    by (simp only: takeWhile_eq_all_conv)
  ultimately show ?thesis by (simp only: basename_def rev_rev_ident)
qed

lemma file_item_fields:
  "filename (file_item n e opts) = name (path_parse n)"
  "fileExtension (file_item n e opts) = replace_dot (ext (path_parse n))"
  by (cases "stat_size e"; cases "read_utf8 e";
      simp add: file_item_def try_file_def catch_file_def Let_def)+

lemma named_by_file_item:
  assumes "single_segment n"
  shows "named_by n (file_item n e opts)"
proof -
  have split: "name (path_parse n) @ ext (path_parse n) = n"
    using path_parse_name_ext [of n] basename_single_segment_id [OF assms] by simp
  have "ext (path_parse n) = [] \<or> (\<exists>s. ext (path_parse n) = CHR ''.'' # s)"
    by (simp add: path_parse_def Let_def)
  then show ?thesis
  proof
    assume "ext (path_parse n) = []"
    with split show ?thesis by (simp add: named_by_def file_item_fields replace_dot_def)
  next
    assume "\<exists>s. ext (path_parse n) = CHR ''.'' # s"
    then obtain s where s: "ext (path_parse n) = CHR ''.'' # s" ..
    with split show ?thesis
      by (cases s) (auto simp: named_by_def file_item_fields replace_dot_def)
  qed
qed

text \<open>What holds of every item that the loop pushes holds of the items it ends with.\<close>

lemma loop_items:
  assumes "\<And>n e. (n, e) \<in> set es \<Longrightarrow> isFile e \<Longrightarrow> Q (file_item n e opts)"
    and "\<And>n e h. (n, e) \<in> set es \<Longrightarrow> isDirectory e \<Longrightarrow> Q (fst (processDirectory n e opts h))"
    and "list_all Q its"
  shows "list_all Q (fst (loop es opts its h))"
  using assms
proof (induction es arbitrary: its h)
  case Nil
  then show ?case by simp
next
  case (Cons a es)
  obtain n e where a: "a = (n, e)" by (cases a)
  obtain folder hd where pd: "processDirectory n e opts h = (folder, hd)"
    by (cases "processDirectory n e opts h")
  obtain b hf where st: "some_test_opt (ignorePatterns opts) n h = (b, hf)"
    by (cases "some_test_opt (ignorePatterns opts) n h")
  have rest: "list_all Q its' \<Longrightarrow> list_all Q (fst (loop es opts its' h'))" for its' h'
    by (rule Cons.IH) (auto intro: Cons.prems(1,2))
  have f: "isFile e \<Longrightarrow> Q (file_item n e opts)"
    using Cons.prems(1) [of n e] a by simp
  have d: "isDirectory e \<Longrightarrow> Q folder"
    using Cons.prems(2) [of n e h] a pd by simp
  show ?case
    unfolding a using Cons.prems(3) f d
    by (cases b) (auto simp: pd st intro!: rest)
qed

lemma spelled_in_mono: "set ns \<subseteq> set ms \<Longrightarrow> spelled_in ns t \<Longrightarrow> spelled_in ms t"
  unfolding spelled_in_def list_all_iff list_ex_iff by blast

lemma entries_ok_member:
  "entries_ok es \<Longrightarrow> (n, e) \<in> set es \<Longrightarrow> single_segment n \<and> names_ok e"
  by (induction es) auto

lemma file_entry_name_listed:
  "(n, e) \<in> set es \<Longrightarrow> isFile e \<Longrightarrow> n \<in> set (entries_file_names es)"
  by (induction es) auto

lemma directory_file_names_listed:
  "(n, e) \<in> set es \<Longrightarrow> \<not> isFile e \<Longrightarrow> set (file_names e) \<subseteq> set (entries_file_names es)"
  by (induction es) auto

lemma isDirectory_not_isFile: "isDirectory e \<Longrightarrow> \<not> isFile e"
  by (cases e) simp_all

lemma spelled_in_file_item:
  "single_segment n \<Longrightarrow> n \<in> set ns \<Longrightarrow> spelled_in ns (file_item n e opts)"
  using named_by_file_item [of n e opts]
  by (auto simp: spelled_in_def nodes_is_file is_file_file_item list_ex_iff)

lemma processDirectory_spelled_in:
  "names_ok e \<Longrightarrow> spelled_in (file_names e) (fst (processDirectory d e opts h))"
proof (induction e arbitrary: d h)
  case (Directory es)
  have IH: "spelled_in (file_names e) (fst (processDirectory n e opts h'))"
    if "(n, e) \<in> set es" for n e h'
  proof -
    from that Directory.prems have "names_ok e" using entries_ok_member by auto
    moreover from that have "e \<in> Basic_BNFs.snds (n, e)" by simp
    ultimately show ?thesis using Directory.IH that by blast
  qed
  have "list_all (spelled_in (entries_file_names es)) (fst (loop es opts [] h))"
  proof (rule loop_items)
    fix n e assume m: "(n, e) \<in> set es" and f: "isFile e"
    from m Directory.prems have "single_segment n" using entries_ok_member by auto
    then show "spelled_in (entries_file_names es) (file_item n e opts)"
      using file_entry_name_listed [OF m f] by (rule spelled_in_file_item)
  next
    fix n e h' assume m: "(n, e) \<in> set es" and d: "isDirectory e"
    from directory_file_names_listed [OF m isDirectory_not_isFile [OF d]] IH [OF m]
    show "spelled_in (entries_file_names es) (fst (processDirectory n e opts h'))"
      by (rule spelled_in_mono)
  qed simp
  then show ?case
    by (auto simp: spelled_in_def list_all_iff split: prod.splits)
qed (simp_all add: spelled_in_def)

text \<open>
  C5, amended. In every tree that the scan resolves with, the extension of a file node
  holds no dot, and the node spells the name of a file entry of the scanned tree: that
  name is the node's file name followed by a dot and the extension, letter for letter,
  so no letter has changed case. The name of every node holds no path separator. Both
  hold provided the names in the directory listings hold no separator.
\<close>

theorem scanned_nodes_have_plain_names:
  assumes "case fs templatePath of None \<Rightarrow> True | Some root \<Rightarrow> names_ok root"
    and "scanTemplateDirectory fs templatePath options h = (Inr t, h')"
  shows "\<forall>x \<in> set (nodes t).
           CHR ''/'' \<notin> set (node_name x)
           \<and> (is_file x \<longrightarrow>
                CHR ''.'' \<notin> set (fileExtension x)
                \<and> (\<exists>n \<in> set (case fs templatePath of None \<Rightarrow> []
                                  | Some root \<Rightarrow> file_names root). named_by n x))"
proof -
  let ?names = "case fs templatePath of None \<Rightarrow> [] | Some root \<Rightarrow> file_names root"
  have "list_all node_ok (nodes t) \<and> spelled_in ?names t"
  proof (cases "fs templatePath")
    case None
    with assms(2) have "t = EMPTY_TEMPLATE"
      by (simp add: scanTemplateDirectory_def stat_def Let_def)
    then show ?thesis
      by (simp add: EMPTY_TEMPLATE_def node_ok_def single_segment_def spelled_in_def)
  next
    case (Some root)
    show ?thesis
    proof (cases "isDirectory root")
      case False
      with Some assms(2) have "t = EMPTY_TEMPLATE"
        by (simp add: scanTemplateDirectory_def stat_def Let_def)
      then show ?thesis
        by (simp add: EMPTY_TEMPLATE_def node_ok_def single_segment_def spelled_in_def)
    next
      case True
      let ?opts = "mergedOptions (case options of None \<Rightarrow> no_options | Some x \<Rightarrow> x)"
      from Some True assms(2)
      have t: "t = fst (processDirectory (basename templatePath) root ?opts h)"
        by (auto simp: scanTemplateDirectory_def stat_def Let_def split: prod.splits)
      from Some assms(1) have ok: "names_ok root" by simp
      have "list_all node_ok (nodes t)"
        using nodes_ok_invariant(1) [OF basename_single_segment ok] t by simp
      moreover have "spelled_in ?names t"
        using processDirectory_spelled_in [OF ok] t Some by simp
      ultimately show ?thesis by simp
    qed
  qed
  then show ?thesis
    by (simp add: list_all_iff list_ex_iff node_ok_def single_segment_def spelled_in_def)
qed

theorem scanned_nodes_witness:
  "scanTemplateDirectory
     [''/t/proj/'' \<mapsto> Directory [(''src'', Directory [(''a.tar.GZ'', File (Inr 2) (Inr ''hi''))])]]
     ''/t/proj/'' None (\<lambda>i. 0)
   = (Inr (TemplateFolder ''proj'' [TemplateFolder ''src'' [TemplateFile ''a.tar'' ''GZ'' ''hi'']]),
      (\<lambda>i. 0))
   \<and> list_all (\<lambda>x. CHR ''/'' \<notin> set (node_name x)
                     \<and> (\<not> is_file x \<or> CHR ''.'' \<notin> set (fileExtension x)
                                        \<and> list_ex (\<lambda>n. named_by n x) [''a.tar.GZ'']))
        (nodes (TemplateFolder ''proj'' [TemplateFolder ''src'' [TemplateFile ''a.tar'' ''GZ'' ''hi'']]))"
proof -
  let ?root = "Directory [(''src'', Directory [(''a.tar.GZ'', File (Inr 2) (Inr ''hi''))])]"
  let ?fs = "[''/t/proj/'' \<mapsto> ?root]"
  let ?t = "TemplateFolder ''proj'' [TemplateFolder ''src'' [TemplateFile ''a.tar'' ''GZ'' ''hi'']]"
  have ok: "case ?fs ''/t/proj/'' of None \<Rightarrow> True | Some root \<Rightarrow> names_ok root"
    by (simp add: single_segment_def)
  have sc: "scanTemplateDirectory ?fs ''/t/proj/'' None (\<lambda>i. 0) = (Inr ?t, (\<lambda>i. 0))"
    by (simp add: scan_eval)
  from scanned_nodes_have_plain_names [OF ok sc] sc show ?thesis
    by (simp add: list_all_iff list_ex_iff)
qed

section \<open>Ignored files\<close>

text \<open>
  For patterns without the \<^verbatim>\<open>g\<close> and \<^verbatim>\<open>y\<close> flags, as the default ones are, a file
  entry leaves no node exactly when its name is among the names to ignore or some
  pattern matches it.
\<close>

lemma stateless_patterns_decide:
  assumes "ignorePatterns opts = Some ps" and "list_all (\<lambda>p. \<not> global_or_sticky p) ps"
    and "loop es1 opts [] h = (its1, h1)" and "loop es2 opts [] h1 = (its2, h2)"
  shows "processDirectory d (Directory (es1 @ (n, File st rd) # es2)) opts h
         = (TemplateFolder d
              (its1 @ (if includes_opt (ignoreFiles opts) n
                          \<or> list_ex (\<lambda>p. exec_from p n 0 \<noteq> None) ps
                       then [] else [file_item n (File st rd) opts]) @ its2), h2)"
proof (cases "includes_opt (ignoreFiles opts) n \<or> list_ex (\<lambda>p. exec_from p n 0 \<noteq> None) ps")
  case True
  have st: "some_test_opt (ignorePatterns opts) n h1
            = (list_ex (\<lambda>p. exec_from p n 0 \<noteq> None) ps, h1)"
    using assms(1,2) by (simp add: some_test_opt_def some_test_stateless)
  from True assms(4) processDirectory_ignored_file [OF _ assms(3) st, of es2 its2 h2 d st rd]
  show ?thesis by simp
next
  case False
  then have st: "some_test_opt (ignorePatterns opts) n h1 = (False, h1)"
    using assms(1,2) by (simp add: some_test_opt_def some_test_stateless)
  from False processDirectory_retained_file [OF _ assms(3) st assms(4), of d st rd]
  show ?thesis by simp
qed

text \<open>
  C7. A pattern with the \<^verbatim>\<open>g\<close> flag keeps the end of its last match in
  \<^verbatim>\<open>lastIndex\<close>, and \<^verbatim>\<open>test\<close> starts there the next time. With the caller's pattern
  \<^verbatim>\<open>/\.log$/g\<close> and the entries \<^verbatim>\<open>a.log\<close> and \<^verbatim>\<open>b.log\<close>, the first is skipped and the second,
  which the pattern matches as well, gets a node.
\<close>

theorem global_pattern_keeps_matching_file:
  "exec_from \<lparr>object_id = 7, global_or_sticky = True,
       exec_from = (\<lambda>s i. if i + 4 \<le> length s \<and> drop (length s - 4) s = ''.log''
                          then Some (length s) else None)\<rparr> ''b.log'' 0 = Some 5
   \<and> fst (scanTemplateDirectory
       [''/t'' \<mapsto> Directory [(''a.log'', File (Inr 1) (Inr ''x'')),
                              (''b.log'', File (Inr 1) (Inr ''y''))]] ''/t''
       (Some \<lparr>ignoreFiles = None, ignoreFolders = None,
          ignorePatterns = Some [\<lparr>object_id = 7, global_or_sticky = True,
            exec_from = (\<lambda>s i. if i + 4 \<le> length s \<and> drop (length s - 4) s = ''.log''
                               then Some (length s) else None)\<rparr>],
          maxFileSize = None\<rparr>) (\<lambda>i. 0))
     = Inr (TemplateFolder ''t'' [TemplateFile ''b'' ''log'' ''y''])"
  by (simp add: scan_eval)

section \<open>Parsing what \<^verbatim>\<open>JSON.stringify\<close> writes\<close>

lemma skip_ws_indent [simp]: "skip_ws (indent n @ s) = skip_ws s"
  by (induction n) (simp_all add: indent_def skip_ws_def is_ws_def)

lemma skip_ws_space [simp]: "skip_ws (CHR '' '' # s) = skip_ws s"
  by (simp add: skip_ws_def is_ws_def)

lemma skip_ws_newline [simp]: "skip_ws (CHR 0x0A # s) = skip_ws s"
  by (simp add: skip_ws_def is_ws_def)

lemma skip_ws_other: "\<not> is_ws c \<Longrightarrow> skip_ws (c # s) = c # s"
  by (simp add: skip_ws_def)

lemma skip_ws_punct [simp]:
  "skip_ws (CHR 0x22 # s) = CHR 0x22 # s"
  "skip_ws (CHR ''{'' # s) = CHR ''{'' # s"
  "skip_ws (CHR ''}'' # s) = CHR ''}'' # s"
  "skip_ws (CHR ''['' # s) = CHR ''['' # s"
  "skip_ws (CHR '']'' # s) = CHR '']'' # s"
  "skip_ws (CHR '','' # s) = CHR '','' # s"
  "skip_ws (CHR '':'' # s) = CHR '':'' # s"
  by (simp_all add: skip_ws_def is_ws_def)

lemma hex_val_hex_digit: "k < 16 \<Longrightarrow> hex_val (hex_digit k) = Some k"
proof -
  assume "k < 16"
  then have "k = 0 \<or> k = 1 \<or> k = 2 \<or> k = 3 \<or> k = 4 \<or> k = 5 \<or> k = 6 \<or> k = 7 \<or> k = 8
             \<or> k = 9 \<or> k = 10 \<or> k = 11 \<or> k = 12 \<or> k = 13 \<or> k = 14 \<or> k = 15"
    by arith
  then show ?thesis
    by (elim disjE) (simp_all add: hex_val_def hex_digit_def Let_def)
qed

lemma hex4_UnicodeEscape:
  assumes "n < 32"
  shows "hex4 (hex_digit 0) (hex_digit 0) (hex_digit (n div 16)) (hex_digit (n mod 16)) = Some n"
proof -
  from assms have c: "n div 16 < 16" by simp
  have d: "n mod 16 < 16" by simp
  have z: "hex_val (hex_digit 0) = Some 0" by (rule hex_val_hex_digit) simp
  show ?thesis
    by (simp add: hex4_def hex_val_hex_digit [OF c] hex_val_hex_digit [OF d] z)
qed

lemma parse_chars_quote_char:
  "parse_chars (quote_char c @ s) = cons_unit (of_char c) (parse_chars s)"
proof -
  consider "c = CHR 0x08" | "c = CHR 0x09" | "c = CHR 0x0A" | "c = CHR 0x0C" | "c = CHR 0x0D"
    | "c = CHR 0x22" | "c = CHR 0x5C"
    | "c \<notin> {CHR 0x08, CHR 0x09, CHR 0x0A, CHR 0x0C, CHR 0x0D, CHR 0x22, CHR 0x5C}" "(of_char c :: nat) < 0x20"
    | "c \<notin> {CHR 0x08, CHR 0x09, CHR 0x0A, CHR 0x0C, CHR 0x0D, CHR 0x22, CHR 0x5C}" "\<not> (of_char c :: nat) < 0x20"
    by blast
  then show ?thesis
  proof cases
    case 8
    then show ?thesis
      by (simp add: quote_char_def UnicodeEscape_def hex4_UnicodeEscape)
  next
    case 9
    then show ?thesis by (simp add: quote_char_def)
  qed (simp_all add: quote_char_def escape_char_def)
qed

lemma parse_chars_quoted:
  "parse_chars (concat (map quote_char s) @ CHR 0x22 # rest) = Some (units s, rest)"
  by (induction s) (simp_all add: units_def parse_chars_quote_char cons_unit_def)

lemma parse_value_space [simp]: "parse_value n (CHR '' '' # s) = parse_value n s"
  by (cases n) (simp_all add: parse_value.simps parse_elements.simps parse_members.simps)

lemma parse_members_newline [simp]: "parse_members n (CHR 0x0A # s) acc = parse_members n s acc"
  by (cases n) (simp_all add: parse_value.simps parse_elements.simps parse_members.simps)

lemma parse_elements_newline [simp]: "parse_elements n (CHR 0x0A # s) acc = parse_elements n s acc"
  by (cases n) (simp_all add: parse_value.simps parse_elements.simps parse_members.simps)

lemma parse_value_newline [simp]: "parse_value n (CHR 0x0A # s) = parse_value n s"
  by (cases n) (simp_all add: parse_value.simps parse_elements.simps parse_members.simps)

lemma parse_value_indent [simp]: "parse_value n (indent k @ s) = parse_value n s"
  by (cases n) (simp_all add: parse_value.simps parse_elements.simps parse_members.simps)

lemma parse_elements_indent [simp]: "parse_elements n (indent k @ s) acc = parse_elements n s acc"
  by (cases n) (simp_all add: parse_value.simps parse_elements.simps parse_members.simps)

lemma parse_value_string:
  "parse_value (Suc n) (QuoteJSONString s @ r) = Some (JString (units s), r)"
  by (simp add: QuoteJSONString_def parse_chars_quoted parse_value.simps)

lemma parse_members_property_more:
  assumes "parse_value (Suc n) (strP @ CHR '','' # r) = Some (v, CHR '','' # r)"
  shows "parse_members (Suc n) (property ind key strP @ CHR '','' # r) acc
         = parse_members n r (put (units key) v acc)"
  using assms by (simp add: property_def QuoteJSONString_def parse_chars_quoted parse_members.simps)

lemma parse_members_property_last:
  assumes "parse_value (Suc n) (strP @ CHR 0x0A # indent k @ CHR ''}'' # r)
           = Some (v, CHR 0x0A # indent k @ CHR ''}'' # r)"
  shows "parse_members (Suc n) (property ind key strP @ CHR 0x0A # indent k @ CHR ''}'' # r) acc
         = Some (JObject (put (units key) v acc), r)"
  using assms by (simp add: property_def QuoteJSONString_def parse_chars_quoted parse_members.simps)

lemma skip_ws_property:
  "skip_ws (property ind key strP @ s)
   = CHR 0x22 # concat (map quote_char key) @ CHR 0x22 # CHR '':'' # CHR '' '' # strP @ s"
  by (simp add: property_def QuoteJSONString_def)

lemma SerializeJSONObject_starts:
  "\<exists>s. SerializeJSONObject ind t = CHR ''{'' # CHR 0x0A # s"
  by (cases t) simp_all

lemma join_elements_starts:
  "\<exists>s. join_elements ind (x # xs) = CHR ''{'' # CHR 0x0A # s"
proof (cases xs)
  case Nil
  then show ?thesis using SerializeJSONObject_starts [of ind x] by simp
next
  case (Cons y ys)
  then show ?thesis using SerializeJSONObject_starts [of ind x] by auto
qed

lemma parse_elements_join:
  assumes IH: "\<And>y fuel i r. y \<in> set (x # xs) \<Longrightarrow> length (SerializeJSONObject i y) \<le> fuel \<Longrightarrow>
                 parse_value fuel (SerializeJSONObject i y @ r) = Some (toJSON y, r)"
    and "length (join_elements ind (x # xs)) \<le> fuel"
  shows "parse_elements fuel (join_elements ind (x # xs) @ CHR 0x0A # indent k @ CHR '']'' # r) acc
         = Some (JArray (acc @ map toJSON (x # xs)), r)"
  using assms
proof (induction xs arbitrary: x fuel acc)
  case Nil
  obtain s where s: "SerializeJSONObject ind x = CHR ''{'' # CHR 0x0A # s"
    using SerializeJSONObject_starts by blast
  with Nil.prems(2) obtain n where n: "fuel = Suc n" by (cases fuel) simp_all
  have "parse_value (Suc n) (SerializeJSONObject ind x @ CHR 0x0A # indent k @ CHR '']'' # r)
        = Some (toJSON x, CHR 0x0A # indent k @ CHR '']'' # r)"
    using Nil.prems(1) [of x ind "Suc n"] Nil.prems(2) n by simp
  then show ?case by (simp add: n parse_elements.simps)
next
  case (Cons y ys)
  obtain s where s: "SerializeJSONObject ind x = CHR ''{'' # CHR 0x0A # s"
    using SerializeJSONObject_starts by blast
  with Cons.prems(2) obtain n where n: "fuel = Suc n" by (cases fuel) simp_all
  let ?rest = "CHR 0x0A # indent ind @ join_elements ind (y # ys) @ CHR 0x0A # indent k @ CHR '']'' # r"
  have v: "parse_value (Suc n) (SerializeJSONObject ind x @ CHR '','' # ?rest)
           = Some (toJSON x, CHR '','' # ?rest)"
    using Cons.prems(1) [of x ind "Suc n"] Cons.prems(2) n by simp
  have len: "length (join_elements ind (y # ys)) \<le> n"
    using Cons.prems(2) n s by simp
  have "parse_elements n (join_elements ind (y # ys) @ CHR 0x0A # indent k @ CHR '']'' # r)
          (acc @ [toJSON x])
        = Some (JArray ((acc @ [toJSON x]) @ map toJSON (y # ys)), r)"
    by (rule Cons.IH [OF _ len]) (simp add: Cons.prems(1))
  with v show ?case by (simp add: n parse_elements.simps)
qed

lemma parse_value_array:
  assumes IH: "\<And>y fuel i r. y \<in> set its \<Longrightarrow> length (SerializeJSONObject i y) \<le> fuel \<Longrightarrow>
                 parse_value fuel (SerializeJSONObject i y @ r) = Some (toJSON y, r)"
    and "length (SerializeJSONArray k its) \<le> fuel"
  shows "parse_value fuel (SerializeJSONArray k its @ r) = Some (JArray (map toJSON its), r)"
proof (cases its)
  case Nil
  with assms(2) obtain n where "fuel = Suc n" by (cases fuel) simp_all
  with Nil show ?thesis by (simp add: parse_value.simps)
next
  case (Cons x xs)
  with assms(2) obtain n where n: "fuel = Suc n" by (cases fuel) simp_all
  obtain s where s: "join_elements (k + 2) (x # xs) = CHR ''{'' # CHR 0x0A # s"
    using join_elements_starts by blast
  have len: "length (join_elements (k + 2) (x # xs)) \<le> n"
    using assms(2) n Cons by simp
  have "parse_elements n (join_elements (k + 2) (x # xs) @ CHR 0x0A # indent k @ CHR '']'' # r) []
        = Some (JArray ([] @ map toJSON (x # xs)), r)"
    by (rule parse_elements_join [OF _ len]) (simp add: IH Cons)
  then show ?thesis
    using s by (simp add: Cons n parse_value.simps)
qed

lemma parse_value_SerializeJSONObject:
  "length (SerializeJSONObject ind t) \<le> fuel \<Longrightarrow>
   parse_value fuel (SerializeJSONObject ind t @ r) = Some (toJSON t, r)"
proof (induction t arbitrary: fuel ind r)
  case (TemplateFile n e c)
  then have "4 \<le> fuel" by simp
  then have "fuel = Suc (Suc (Suc (Suc (fuel - 4))))" by arith
  then obtain m where m: "fuel = Suc (Suc (Suc (Suc m)))" ..
  let ?m3 = "property (ind + 2) ''content'' (QuoteJSONString c) @ CHR 0x0A # indent ind @ CHR ''}'' # r"
  let ?m2 = "property (ind + 2) ''fileExtension'' (QuoteJSONString e) @ CHR '','' # CHR 0x0A # ?m3"
  let ?m1 = "property (ind + 2) ''filename'' (QuoteJSONString n) @ CHR '','' # CHR 0x0A # ?m2"
  have doc: "SerializeJSONObject ind (TemplateFile n e c) @ r = CHR ''{'' # CHR 0x0A # ?m1"
    by simp
  have 3: "parse_members (Suc m) ?m3 acc
           = Some (JObject (put (units ''content'') (JString (units c)) acc), r)" for acc
    by (rule parse_members_property_last) (rule parse_value_string)
  have 2: "parse_members (Suc (Suc m)) ?m2 acc
           = parse_members (Suc m) (CHR 0x0A # ?m3)
               (put (units ''fileExtension'') (JString (units e)) acc)" for acc
    by (rule parse_members_property_more) (rule parse_value_string)
  have 1: "parse_members (Suc (Suc (Suc m))) ?m1 acc
           = parse_members (Suc (Suc m)) (CHR 0x0A # ?m2)
               (put (units ''filename'') (JString (units n)) acc)" for acc
    by (rule parse_members_property_more) (rule parse_value_string)
  have 0: "parse_value (Suc (Suc (Suc (Suc m)))) (CHR ''{'' # CHR 0x0A # ?m1)
           = parse_members (Suc (Suc (Suc m))) (CHR 0x0A # ?m1) []"
    by (simp add: parse_value.simps skip_ws_property)
  have "parse_value fuel (SerializeJSONObject ind (TemplateFile n e c) @ r)
        = parse_members (Suc (Suc (Suc m))) (CHR 0x0A # ?m1) []"
    unfolding m doc by (rule 0)
  also have "\<dots> = parse_members (Suc (Suc m)) (CHR 0x0A # ?m2)
                      (put (units ''filename'') (JString (units n)) [])"
    by (simp only: parse_members_newline 1)
  also have "\<dots> = parse_members (Suc m) (CHR 0x0A # ?m3)
                      (put (units ''fileExtension'') (JString (units e))
                        (put (units ''filename'') (JString (units n)) []))"
    by (simp only: parse_members_newline 2)
  also have "\<dots> = Some (JObject (put (units ''content'') (JString (units c))
                      (put (units ''fileExtension'') (JString (units e))
                        (put (units ''filename'') (JString (units n)) []))), r)"
    by (simp only: parse_members_newline 3)
  finally show ?case by (simp add: units_def)
next
  case (TemplateFolder n its)
  then have "3 \<le> fuel" by simp
  then have "fuel = Suc (Suc (Suc (fuel - 3)))" by arith
  then obtain m where m: "fuel = Suc (Suc (Suc m))" ..
  have len: "length (SerializeJSONArray (ind + 2) its) \<le> Suc m"
    using TemplateFolder.prems m by (simp add: property_def)
  have arr: "parse_value (Suc m) (SerializeJSONArray (ind + 2) its @ r')
             = Some (JArray (map toJSON its), r')" for r'
    by (rule parse_value_array [OF _ len]) (simp add: TemplateFolder.IH)
  let ?m2 = "property (ind + 2) ''items'' (SerializeJSONArray (ind + 2) its)
               @ CHR 0x0A # indent ind @ CHR ''}'' # r"
  let ?m1 = "property (ind + 2) ''folderName'' (QuoteJSONString n) @ CHR '','' # CHR 0x0A # ?m2"
  have doc: "SerializeJSONObject ind (TemplateFolder n its) @ r = CHR ''{'' # CHR 0x0A # ?m1"
    by simp
  have 2: "parse_members (Suc m) ?m2 acc
           = Some (JObject (put (units ''items'') (JArray (map toJSON its)) acc), r)" for acc
    by (rule parse_members_property_last) (rule arr)
  have 1: "parse_members (Suc (Suc m)) ?m1 acc
           = parse_members (Suc m) (CHR 0x0A # ?m2)
               (put (units ''folderName'') (JString (units n)) acc)" for acc
    by (rule parse_members_property_more) (rule parse_value_string)
  have 0: "parse_value (Suc (Suc (Suc m))) (CHR ''{'' # CHR 0x0A # ?m1)
           = parse_members (Suc (Suc m)) (CHR 0x0A # ?m1) []"
    by (simp add: parse_value.simps skip_ws_property)
  have "parse_value fuel (SerializeJSONObject ind (TemplateFolder n its) @ r)
        = parse_members (Suc (Suc m)) (CHR 0x0A # ?m1) []"
    unfolding m doc by (rule 0)
  also have "\<dots> = parse_members (Suc m) (CHR 0x0A # ?m2)
                      (put (units ''folderName'') (JString (units n)) [])"
    by (simp only: parse_members_newline 1)
  also have "\<dots> = Some (JObject (put (units ''items'') (JArray (map toJSON its))
                      (put (units ''folderName'') (JString (units n)) [])), r)"
    by (simp only: parse_members_newline 2)
  finally show ?case by (simp add: units_def)
qed

lemma JSON_parse_stringify: "JSON_parse (JSON_stringify t) = Inr (toJSON t)"
  using parse_value_SerializeJSONObject [of 0 t "length (SerializeJSONObject 0 t)" "[]"]
  by (simp add: JSON_parse_def JSON_stringify_def skip_ws_def)

text \<open>The value determines the tree: nesting, names, extensions, contents and order.\<close>

lemma map_toJSON_inj:
  assumes "\<And>x y. x \<in> set xs \<Longrightarrow> toJSON x = toJSON y \<Longrightarrow> x = y"
    and "map toJSON xs = map toJSON ys"
  shows "xs = ys"
  using assms
proof (induction xs arbitrary: ys)
  case Nil
  then show ?case by simp
next
  case (Cons x xs)
  then obtain y ys' where ys: "ys = y # ys'" by (cases ys) auto
  with Cons.prems have "toJSON x = toJSON y" and "map toJSON xs = map toJSON ys'" by simp_all
  with Cons show ?case unfolding ys by simp
qed

lemma units_inj: "units s = units s' \<Longrightarrow> s = s'"
  unfolding units_def by (rule map_injective) (auto intro: injI)

lemma toJSON_inj: "toJSON t = toJSON t' \<Longrightarrow> t = t'"
proof (induction t arbitrary: t')
  case (TemplateFile n e c)
  then show ?case by (cases t') (auto dest: units_inj)
next
  case (TemplateFolder n its)
  show ?case
  proof (cases t')
    case (TemplateFile n' e' c')
    with TemplateFolder.prems show ?thesis by simp
  next
    case (TemplateFolder n' its')
    with TemplateFolder.prems have "units n = units n'" and "map toJSON its = map toJSON its'"
      by simp_all
    then have "n = n'" and "its = its'"
      using TemplateFolder.IH by (auto dest: units_inj intro: map_toJSON_inj)
    then show ?thesis using \<open>t' = TemplateFolder n' its'\<close> by simp
  qed
qed

text \<open>The document of a folder without items is the five lines one expects.\<close>

lemma JSON_stringify_empty_folder:
  "JSON_stringify (TemplateFolder ''t'' [])
   = ''{'' @ [CHR 0x0A]
     @ ''  '' @ [CHR 0x22] @ ''folderName'' @ [CHR 0x22] @ '': '' @ [CHR 0x22] @ ''t'' @ [CHR 0x22]
     @ '','' @ [CHR 0x0A]
     @ ''  '' @ [CHR 0x22] @ ''items'' @ [CHR 0x22] @ '': []'' @ [CHR 0x0A]
     @ ''}''"
  by (simp add: JSON_stringify_def property_def QuoteJSONString_def quote_char_def indent_def
      numeral_eq_Suc)

section \<open>The bound of the parser\<close>

lemma length_skip_ws: "length (skip_ws s) \<le> length s"
  by (simp add: skip_ws_def length_dropWhile_le)

lemma skip_ws_Cons_length: "skip_ws s = c # r \<Longrightarrow> length r < length s"
  using length_skip_ws [of s] by simp

lemma parse_chars_shorter: "parse_chars s = Some (us, r) \<Longrightarrow> length r < length s"
proof (induction s arbitrary: us r rule: parse_chars.induct)
  case 1
  then show ?case by simp
next
  case (2 c cs)
  then show ?case
    by (auto simp: cons_unit_def split: if_splits list.splits option.splits prod.splits)
       fastforce+
qed

lemma digits1_shorter: "digits1 s = Some (ds, r) \<Longrightarrow> length r < length s"
  by (cases s) (auto simp: digits1_def split: if_splits intro: le_imp_less_Suc length_dropWhile_le)

lemma parse_int_part_shorter: "parse_int_part s = Some (i, r) \<Longrightarrow> length r < length s"
  by (cases s) (auto simp: parse_int_part_def split: if_splits dest: digits1_shorter)

lemma parse_frac_shorter: "parse_frac s = Some (f, r) \<Longrightarrow> length r \<le> length s"
  by (cases s)
     (auto simp: parse_frac_def split: if_splits option.splits dest!: digits1_shorter)

lemma parse_exp_shorter: "parse_exp s = Some (e, r) \<Longrightarrow> length r \<le> length s"
  by (cases s)
     (auto simp: parse_exp_def split: if_splits option.splits list.splits dest!: digits1_shorter)

lemma parse_number_shorter: "parse_number s = Some (lx, r) \<Longrightarrow> length r < length s"
proof -
  assume a: "parse_number s = Some (lx, r)"
  let ?s0 = "case s of [] \<Rightarrow> s | c # t \<Rightarrow> if c = CHR ''-'' then t else s"
  have s0: "length ?s0 \<le> length s" by (cases s) simp_all
  from a obtain i s1 f s2 e where i: "parse_int_part ?s0 = Some (i, s1)"
    and f: "parse_frac s1 = Some (f, s2)" and e: "parse_exp s2 = Some (e, r)"
    by (cases s) (auto simp: parse_number_def Let_def split: option.splits if_splits)
  from parse_int_part_shorter [OF i] parse_frac_shorter [OF f] parse_exp_shorter [OF e] s0
  show ?thesis by linarith
qed

lemma Suc_fuel: "length (s :: string) \<le> m \<Longrightarrow> length r < length s \<Longrightarrow> \<exists>k. m = Suc k \<and> length r \<le> k"
  by (cases m) auto

lemma parse_fuel_enough_all:
  "(\<forall>s res. parse_value n s = Some res \<longrightarrow>
       length (snd res) < length s \<and> (\<forall>m \<ge> length s. parse_value m s = Some res))
   \<and> (\<forall>s acc res. parse_elements n s acc = Some res \<longrightarrow>
       length (snd res) < length s \<and> (\<forall>m \<ge> length s. parse_elements m s acc = Some res))
   \<and> (\<forall>s kvs res. parse_members n s kvs = Some res \<longrightarrow>
       length (snd res) < length s \<and> (\<forall>m \<ge> length s. parse_members m s kvs = Some res))"
proof (induction n)
  case 0
  show ?case by (simp add: parse_value.simps parse_elements.simps parse_members.simps)
next
  case (Suc n)
  then have IHe: "\<And>s acc res. parse_elements n s acc = Some res \<Longrightarrow>
       length (snd res) < length s \<and> (\<forall>m \<ge> length s. parse_elements m s acc = Some res)"
    and IHm: "\<And>s kvs res. parse_members n s kvs = Some res \<Longrightarrow>
       length (snd res) < length s \<and> (\<forall>m \<ge> length s. parse_members m s kvs = Some res)"
    by blast+
  have V: "length (snd res) < length s \<and> (\<forall>m \<ge> length s. parse_value m s = Some res)"
    if a: "parse_value (Suc n) s = Some res" for s res
  proof -
    from a obtain c r where sw: "skip_ws s = c # r"
      by (auto simp: parse_value.simps split: list.splits)
    have lr: "length r < length s" using skip_ws_Cons_length [OF sw] .
    show ?thesis
    proof (cases "c = CHR ''{''")
      case True
      from a sw True obtain c' r' where sw': "skip_ws r = c' # r'"
        by (auto simp: parse_value.simps split: list.splits)
      have lr': "length r' < length r" using skip_ws_Cons_length [OF sw'] .
      show ?thesis
      proof (cases "c' = CHR ''}''")
        case True
        with a sw sw' \<open>c = CHR ''{''\<close> have res: "res = (JObject [], r')"
          by (simp add: parse_value.simps)
        have "parse_value m s = Some res" if "length s \<le> m" for m
        proof -
          from that lr obtain k where "m = Suc k" using Suc_fuel by blast
          then show ?thesis using sw sw' True \<open>c = CHR ''{''\<close> res
            by (simp add: parse_value.simps)
        qed
        with lr lr' res show ?thesis by simp
      next
        case False
        with a sw sw' \<open>c = CHR ''{''\<close> have pm: "parse_members n r [] = Some res"
          by (simp add: parse_value.simps)
        from IHm [OF pm] have l: "length (snd res) < length r"
          and e: "\<And>m. length r \<le> m \<Longrightarrow> parse_members m r [] = Some res" by simp_all
        have "parse_value m s = Some res" if "length s \<le> m" for m
        proof -
          from that lr obtain k where k: "m = Suc k" "length r \<le> k" using Suc_fuel by blast
          then show ?thesis using sw sw' False \<open>c = CHR ''{''\<close> e [OF k(2)]
            by (simp add: parse_value.simps)
        qed
        with lr l show ?thesis by simp
      qed
    next
      case notobj: False
      show ?thesis
      proof (cases "c = CHR ''[''")
        case True
        from a sw True obtain c' r' where sw': "skip_ws r = c' # r'"
          by (auto simp: parse_value.simps split: list.splits)
        have lr': "length r' < length r" using skip_ws_Cons_length [OF sw'] .
        show ?thesis
        proof (cases "c' = CHR '']''")
          case True
          with a sw sw' \<open>c = CHR ''[''\<close> have res: "res = (JArray [], r')"
            by (simp add: parse_value.simps)
          have "parse_value m s = Some res" if "length s \<le> m" for m
          proof -
            from that lr obtain k where "m = Suc k" using Suc_fuel by blast
            then show ?thesis using sw sw' True \<open>c = CHR ''[''\<close> res
              by (simp add: parse_value.simps)
          qed
          with lr lr' res show ?thesis by simp
        next
          case False
          with a sw sw' \<open>c = CHR ''[''\<close> have pe: "parse_elements n r [] = Some res"
            by (simp add: parse_value.simps)
          from IHe [OF pe] have l: "length (snd res) < length r"
            and e: "\<And>m. length r \<le> m \<Longrightarrow> parse_elements m r [] = Some res" by simp_all
          have "parse_value m s = Some res" if "length s \<le> m" for m
          proof -
            from that lr obtain k where k: "m = Suc k" "length r \<le> k" using Suc_fuel by blast
            then show ?thesis using sw sw' False \<open>c = CHR ''[''\<close> e [OF k(2)]
              by (simp add: parse_value.simps)
          qed
          with lr l show ?thesis by simp
        qed
      next
        case notarr: False
        have same: "parse_value (Suc k) s = parse_value (Suc n) s" for k
          using sw notobj notarr by (simp add: parse_value.simps)
        have "parse_value m s = Some res" if "length s \<le> m" for m
        proof -
          from that lr obtain k where "m = Suc k" using Suc_fuel by blast
          then show ?thesis using same a by simp
        qed
        moreover have "length (snd res) < length s"
          using a sw notobj notarr lr
          by (auto simp: parse_value.simps split: if_splits option.splits
              dest!: parse_chars_shorter parse_number_shorter)
        ultimately show ?thesis by simp
      qed
    qed
  qed
  have E: "length (snd res) < length s \<and> (\<forall>m \<ge> length s. parse_elements m s acc = Some res)"
    if a: "parse_elements (Suc n) s acc = Some res" for s acc res
  proof -
    from a obtain v r where pv: "parse_value (Suc n) s = Some (v, r)"
      by (auto simp: parse_elements.simps split: option.splits)
    from V [OF pv] have lr: "length r < length s"
      and ev: "\<And>m. length s \<le> m \<Longrightarrow> parse_value m s = Some (v, r)" by simp_all
    from a pv obtain c r' where sw: "skip_ws r = c # r'"
      by (auto simp: parse_elements.simps split: list.splits)
    have lr': "length r' < length r" using skip_ws_Cons_length [OF sw] .
    show ?thesis
    proof (cases "c = CHR '',''")
      case True
      with a pv sw have pe: "parse_elements n r' (acc @ [v]) = Some res"
        by (simp add: parse_elements.simps)
      from IHe [OF pe] have l: "length (snd res) < length r'"
        and e: "\<And>m. length r' \<le> m \<Longrightarrow> parse_elements m r' (acc @ [v]) = Some res"
        by simp_all
      have "parse_elements m s acc = Some res" if "length s \<le> m" for m
      proof -
        from that lr obtain k where k: "m = Suc k" "length r \<le> k" using Suc_fuel by blast
        with lr' have "length r' \<le> k" by simp
        from e [OF this] ev [OF that] k(1) sw True show ?thesis
          by (simp add: parse_elements.simps)
      qed
      with l lr lr' show ?thesis by simp
    next
      case False
      with a pv sw have c: "c = CHR '']''" and res: "res = (JArray (acc @ [v]), r')"
        by (auto simp: parse_elements.simps split: if_splits)
      have "parse_elements m s acc = Some res" if "length s \<le> m" for m
      proof -
        from that lr obtain k where k: "m = Suc k" using Suc_fuel by blast
        from ev [OF that] k sw c res show ?thesis
          by (simp add: parse_elements.simps)
      qed
      with res lr lr' show ?thesis by simp
    qed
  qed
  have M: "length (snd res) < length s \<and> (\<forall>m \<ge> length s. parse_members m s kvs = Some res)"
    if a: "parse_members (Suc n) s kvs = Some res" for s kvs res
  proof -
    from a obtain q r where sw: "skip_ws s = q # r"
      by (auto simp: parse_members.simps split: list.splits)
    from a sw have q: "q = CHR 0x22"
      by (auto simp: parse_members.simps split: if_splits)
    from a sw q obtain k r1 where pc: "parse_chars r = Some (k, r1)"
      by (auto simp: parse_members.simps split: option.splits)
    from a sw q pc obtain c r2 where sw1: "skip_ws r1 = c # r2"
      by (auto simp: parse_members.simps split: list.splits)
    from a sw q pc sw1 have c: "c = CHR '':''"
      by (auto simp: parse_members.simps split: if_splits)
    from a sw q pc sw1 c obtain v r3 where pv: "parse_value (Suc n) r2 = Some (v, r3)"
      by (auto simp: parse_members.simps split: option.splits)
    from a sw q pc sw1 c pv obtain c' r4 where sw3: "skip_ws r3 = c' # r4"
      by (auto simp: parse_members.simps split: list.splits)
    have l0: "length r < length s" using skip_ws_Cons_length [OF sw] .
    have l1: "length r1 < length r" using parse_chars_shorter [OF pc] .
    have l2: "length r2 < length r1" using skip_ws_Cons_length [OF sw1] .
    from V [OF pv] have l3: "length r3 < length r2"
      and ev: "\<And>m. length r2 \<le> m \<Longrightarrow> parse_value m r2 = Some (v, r3)" by simp_all
    have l4: "length r4 < length r3" using skip_ws_Cons_length [OF sw3] .
    show ?thesis
    proof (cases "c' = CHR '',''")
      case True
      with a sw q pc sw1 c pv sw3 have pm: "parse_members n r4 (put k v kvs) = Some res"
        by (simp add: parse_members.simps)
      from IHm [OF pm] have l: "length (snd res) < length r4"
        and e: "\<And>m. length r4 \<le> m \<Longrightarrow> parse_members m r4 (put k v kvs) = Some res"
        by simp_all
      have "parse_members m s kvs = Some res" if "length s \<le> m" for m
      proof -
        from that l0 obtain j where j: "m = Suc j" "length r \<le> j" using Suc_fuel by blast
        with l1 l2 l3 l4 have "length r4 \<le> j" and "length r2 \<le> Suc j" by simp_all
        from e [OF this(1)] ev [OF this(2)] j(1) sw q pc sw1 c sw3 True show ?thesis
          by (simp add: parse_members.simps)
      qed
      with l l0 l1 l2 l3 l4 show ?thesis by simp
    next
      case False
      with a sw q pc sw1 c pv sw3 have c': "c' = CHR ''}''"
        and res: "res = (JObject (put k v kvs), r4)"
        by (auto simp: parse_members.simps split: if_splits)
      have "parse_members m s kvs = Some res" if "length s \<le> m" for m
      proof -
        from that l0 obtain j where j: "m = Suc j" "length r \<le> j" using Suc_fuel by blast
        with l1 l2 have "length r2 \<le> Suc j" by simp
        from ev [OF this] j(1) sw q pc sw1 c sw3 c' res show ?thesis
          by (simp add: parse_members.simps)
      qed
      with res l0 l1 l2 l3 l4 show ?thesis by simp
    qed
  qed
  from V E M show ?case by blast
qed

text \<open>
  The bound of the recursion does not show in the result: a text that parses with any
  bound parses with its length as the bound, to the same value.
\<close>

lemma JSON_parse_any_fuel:
  assumes "parse_value n s = Some (v, r)" and "skip_ws r = []"
  shows "JSON_parse s = Inr v"
proof -
  from parse_fuel_enough_all [of n]
  have "\<forall>s res. parse_value n s = Some res \<longrightarrow>
          length (snd res) < length s \<and> (\<forall>m \<ge> length s. parse_value m s = Some res)"
    by (rule conjunct1)
  then have "\<forall>m \<ge> length s. parse_value m s = Some (v, r)"
    using assms(1) by (elim allE [of _ s] allE [of _ "(v, r)"]) simp
  then have "parse_value (length s) s = Some (v, r)" by simp
  with assms(2) show ?thesis by (simp add: JSON_parse_def)
qed

section \<open>Loading\<close>

text \<open>
  C2. \<^verbatim>\<open>readTemplateStructureFromJson\<close> always resolves. When the file cannot be read, or
  its text is not JSON (\<^verbatim>\<open>JSON.parse\<close> throws), it resolves with the empty template, the
  folder named \<^verbatim>\<open>empty-template\<close> without items.
\<close>

theorem load_never_rejects:
  "(\<exists>v. readTemplateStructureFromJson dk filePath = Inr v)
   \<and> (files dk filePath = None
        \<or> (\<exists>data e. files dk filePath = Some data \<and> JSON_parse data = Inl e)
      \<longrightarrow> readTemplateStructureFromJson dk filePath
          = Inr (JObject [(units ''folderName'', JString (units ''empty-template'')),
                          (units ''items'', JArray [])]))"
  by (auto simp: readTemplateStructureFromJson_def readFile_def EMPTY_TEMPLATE_def
      split: option.splits sum.splits)

theorem load_never_rejects_witness:
  "readTemplateStructureFromJson
     \<lparr>files = [''/out/bad.json'' \<mapsto> ''{ folderName: 1 }''], mkdir_rejects = (\<lambda>p. False),
        write_rejects = (\<lambda>p. False)\<rparr> ''/out/bad.json''
   = Inr (JObject [(units ''folderName'', JString (units ''empty-template'')),
                   (units ''items'', JArray [])])
   \<and> readTemplateStructureFromJson
     \<lparr>files = [''/out/bad.json'' \<mapsto> ''{ folderName: 1 }''], mkdir_rejects = (\<lambda>p. False),
        write_rejects = (\<lambda>p. False)\<rparr> ''/out/missing.json''
   = Inr (JObject [(units ''folderName'', JString (units ''empty-template'')),
                   (units ''items'', JArray [])])"
proof -
  let ?dk = "\<lparr>files = [''/out/bad.json'' \<mapsto> ''{ folderName: 1 }''], mkdir_rejects = (\<lambda>p. False),
               write_rejects = (\<lambda>p. False)\<rparr>"
  have bad: "JSON_parse ''{ folderName: 1 }'' = Inl SyntaxError"
    by (simp add: JSON_parse_def parse_value.simps parse_members.simps skip_ws_def is_ws_def)
  have a: "files ?dk ''/out/bad.json'' = None
           \<or> (\<exists>data e. files ?dk ''/out/bad.json'' = Some data \<and> JSON_parse data = Inl e)"
    using bad by simp
  have b: "files ?dk ''/out/missing.json'' = None
           \<or> (\<exists>data e. files ?dk ''/out/missing.json'' = Some data \<and> JSON_parse data = Inl e)"
    by simp
  from load_never_rejects [of ?dk "''/out/bad.json''"] a
    load_never_rejects [of ?dk "''/out/missing.json''"] b
  show ?thesis by blast
qed

section \<open>Saving, then loading\<close>

text \<open>
  C1. Let \<open>T\<close> be the tree that the scan of a save resolves with, and let the directory
  of the output path be made and the document be written. Then the save resolves, the
  document is \<^verbatim>\<open>JSON.stringify(T, null, 2)\<close>, and loading the output path resolves with the
  value of \<open>T\<close>: the same nesting, the same names, extensions and contents, the items
  of every folder in the same order. No other tree has that value.
\<close>

theorem save_then_load_roundtrip:
  assumes "\<not> mkdir_rejects dk outputPath" and "\<not> write_rejects dk outputPath"
    and "scanTemplateDirectory fs templatePath options h = (Inr T, h')"
  shows "saveTemplateStructureToJson fs dk templatePath outputPath options h
           = (Inr (), dk\<lparr>files := (files dk)(outputPath \<mapsto> JSON_stringify T)\<rparr>, h')
         \<and> readTemplateStructureFromJson
             (dk\<lparr>files := (files dk)(outputPath \<mapsto> JSON_stringify T)\<rparr>) outputPath
           = Inr (toJSON T)
         \<and> (\<forall>T'. toJSON T' = toJSON T \<longrightarrow> T' = T)"
proof -
  have "saveTemplateStructureToJson fs dk templatePath outputPath options h
          = (Inr (), dk\<lparr>files := (files dk)(outputPath \<mapsto> JSON_stringify T)\<rparr>, h')"
    using assms by (simp add: saveTemplateStructureToJson_def mkdir_dirname_def writeFile_def)
  moreover have "readTemplateStructureFromJson
             (dk\<lparr>files := (files dk)(outputPath \<mapsto> JSON_stringify T)\<rparr>) outputPath
           = Inr (toJSON T)"
    by (simp add: readTemplateStructureFromJson_def readFile_def JSON_parse_stringify)
  moreover have "\<forall>T'. toJSON T' = toJSON T \<longrightarrow> T' = T"
    by (auto dest: toJSON_inj)
  ultimately show ?thesis by simp
qed

theorem save_then_load_witness:
  "readTemplateStructureFromJson
     (fst (snd (saveTemplateStructureToJson
        [''/t/proj'' \<mapsto> Directory [(''a.txt'', File (Inr 3) (Inr [CHR ''h'', CHR 0x22, CHR 0x0A])),
                                  (''src'', Directory [])]]
        \<lparr>files = (\<lambda>p. None), mkdir_rejects = (\<lambda>p. False), write_rejects = (\<lambda>p. False)\<rparr>
        ''/t/proj'' ''/out/t.json'' None (\<lambda>i. 0))))
     ''/out/t.json''
   = Inr (toJSON (TemplateFolder ''proj''
            [TemplateFile ''a'' ''txt'' [CHR ''h'', CHR 0x22, CHR 0x0A],
             TemplateFolder ''src'' []]))"
proof -
  let ?fs = "[''/t/proj'' \<mapsto> Directory [(''a.txt'', File (Inr 3) (Inr [CHR ''h'', CHR 0x22, CHR 0x0A])),
                                        (''src'', Directory [])]]"
  let ?dk = "\<lparr>files = (\<lambda>p. None), mkdir_rejects = (\<lambda>p. False), write_rejects = (\<lambda>p. False)\<rparr>"
  let ?T = "TemplateFolder ''proj''
              [TemplateFile ''a'' ''txt'' [CHR ''h'', CHR 0x22, CHR 0x0A], TemplateFolder ''src'' []]"
  have a: "\<not> mkdir_rejects ?dk ''/out/t.json''" and b: "\<not> write_rejects ?dk ''/out/t.json''"
    by simp_all
  have sc: "scanTemplateDirectory ?fs ''/t/proj'' None (\<lambda>i. 0) = (Inr ?T, (\<lambda>i. 0))"
    by (simp add: scan_eval)
  from save_then_load_roundtrip [OF a b sc] show ?thesis by simp
qed

end
